theory Spec2Isabelle
  imports Complex_Main
begin

section \<open>Python values used by the notebook\<close>

text \<open>
  The notebook \<^verbatim>\<open>src/unnamed/part_000\<close> selects b-jets with a cut on one column of a table
  and scores the selection against the truth column. Its code uses Python lists, Python
  integers and Python floats. Exceptions are values: a computation returns
  \<open>py_error + 'a\<close>, with \<open>Inl\<close> for the exception raised.
\<close>

datatype py_error = IndexError | KeyError | TypeError | ZeroDivisionError | OverflowError

subsection \<open>Floats\<close>

text \<open>
  A Python float is an IEEE 754 binary64 number: a finite value (a rational), an infinity
  or a NaN. The sign of a zero is not kept: no operation of the notebook tells \<open>-0.0\<close>
  from \<open>0.0\<close>.
\<close>

datatype pyfloat = Finite rat | PosInf | NegInf | NaN

text \<open>\<open>bit_length n\<close> is Python's \<^verbatim>\<open>n.bit_length()\<close> for \<open>n \<ge> 0\<close>.\<close>

function bit_length :: "int \<Rightarrow> int" where
  "bit_length n = (if n \<le> 0 then 0 else 1 + bit_length (n div 2))"
  by pat_completeness auto
termination
  by (relation "measure nat") auto

declare bit_length.simps [simp del]

text \<open>\<open>ilog2 x\<close> is the binary exponent of a positive rational: \<open>2^e \<le> x < 2^(e+1)\<close>.\<close>

definition ilog2 :: "rat \<Rightarrow> int" where
  "ilog2 x =
     (let (p, q) = quotient_of x;
          d = bit_length p - bit_length q
      in if 2 powi d \<le> x then d else d - 1)"

text \<open>Rounding a rational to an integer, ties to the even neighbour.\<close>

definition round_half_even :: "rat \<Rightarrow> int" where
  "round_half_even m =
     (let f = \<lfloor>m\<rfloor>; d = m - of_int f
      in if d < 1 / 2 then f
         else if 1 / 2 < d then f + 1
         else if even f then f else f + 1)"

text \<open>
  The binary64 grid around a positive rational \<open>x\<close>: its exponent is that of \<open>x\<close>, but
  at least \<open>-1022\<close> (below \<open>2^-1022\<close> the numbers are subnormal), and neighbouring floats
  are \<open>ulp x = 2^(expo x - 52)\<close> apart (52 fraction bits below the leading bit).
\<close>

definition expo :: "rat \<Rightarrow> int" where
  "expo x = max (ilog2 x) (- 1022)"

definition ulp :: "rat \<Rightarrow> rat" where
  "ulp x = 2 powi (expo x - 52)"

text \<open>
  \<open>round64 x\<close> rounds \<open>x\<close> to the nearest multiple of \<open>ulp \<bar>x\<bar>\<close>, ties to the even
  multiple. It does not look at the upper end of the range; \<open>float_round\<close> does.
\<close>

definition round64 :: "rat \<Rightarrow> rat" where
  "round64 x =
     (if x = 0 then 0
      else sgn x * of_int (round_half_even (\<bar>x\<bar> / ulp \<bar>x\<bar>)) * ulp \<bar>x\<bar>)"

text \<open>The result of a float operation whose exact value is \<open>x\<close>: values that round
  to \<open>2^1024\<close> or beyond become an infinity.\<close>

definition float_round :: "rat \<Rightarrow> pyfloat" where
  "float_round x =
     (let r = round64 x
      in if 2 ^ 1024 \<le> r then PosInf
         else if r \<le> - (2 ^ 1024) then NegInf
         else Finite r)"

text \<open>\<^verbatim>\<open>float(k)\<close> for a Python integer \<open>k\<close>: the nearest float, or OverflowError
  when that is not finite.\<close>

definition float_of_int :: "int \<Rightarrow> py_error + pyfloat" where
  "float_of_int k =
     (case float_round (of_int k) of
        Finite r \<Rightarrow> Inr (Finite r)
      | _ \<Rightarrow> Inl OverflowError)"

text \<open>\<^verbatim>\<open>a / b\<close> on floats: Python raises ZeroDivisionError for a zero divisor and
  otherwise returns the IEEE quotient.\<close>

fun float_truediv :: "pyfloat \<Rightarrow> pyfloat \<Rightarrow> py_error + pyfloat" where
  "float_truediv a (Finite y) =
     (if y = 0 then Inl ZeroDivisionError
      else case a of
             Finite x \<Rightarrow> Inr (float_round (x / y))
           | PosInf \<Rightarrow> Inr (if 0 < y then PosInf else NegInf)
           | NegInf \<Rightarrow> Inr (if 0 < y then NegInf else PosInf)
           | NaN \<Rightarrow> Inr NaN)"
| "float_truediv (Finite x) PosInf = Inr (Finite 0)"
| "float_truediv (Finite x) NegInf = Inr (Finite 0)"
| "float_truediv a b = Inr NaN"

text \<open>\<^verbatim>\<open>a - b\<close> on floats.\<close>

fun float_sub :: "pyfloat \<Rightarrow> pyfloat \<Rightarrow> pyfloat" where
  "float_sub (Finite x) (Finite y) = float_round (x - y)"
| "float_sub NaN b = NaN"
| "float_sub a NaN = NaN"
| "float_sub PosInf PosInf = NaN"
| "float_sub NegInf NegInf = NaN"
| "float_sub PosInf b = PosInf"
| "float_sub NegInf b = NegInf"
| "float_sub (Finite x) PosInf = NegInf"
| "float_sub (Finite x) NegInf = PosInf"

text \<open>\<^verbatim>\<open>a > b\<close> on floats: false as soon as one side is a NaN.\<close>

fun float_gt :: "pyfloat \<Rightarrow> pyfloat \<Rightarrow> bool" where
  "float_gt (Finite x) (Finite y) = (y < x)"
| "float_gt NaN b = False"
| "float_gt a NaN = False"
| "float_gt PosInf PosInf = False"
| "float_gt PosInf b = True"
| "float_gt NegInf b = False"
| "float_gt (Finite x) PosInf = False"
| "float_gt (Finite x) NegInf = True"

text \<open>A decimal literal such as \<^verbatim>\<open>0.15\<close> denotes the float nearest to it.\<close>

definition float_lit :: "rat \<Rightarrow> pyfloat" where
  "float_lit q = float_round q"

text \<open>The real number a finite float stands for (0 for the others; used in bounds on
  finite results only).\<close>

fun float_val :: "pyfloat \<Rightarrow> rat" where
  "float_val (Finite x) = x"
| "float_val a = 0"

subsection \<open>Lists\<close>

text \<open>\<^verbatim>\<open>xs[i]\<close> on a Python list, for an index \<open>i \<ge> 0\<close>: IndexError out of range.\<close>

definition list_getitem :: "'a list \<Rightarrow> nat \<Rightarrow> py_error + 'a" where
  "list_getitem xs i = (if i < length xs then Inr (xs ! i) else Inl IndexError)"

text \<open>\<^verbatim>\<open>col[i]\<close> on a column of the table (a pandas Series with the default index
  \<open>0, \<dots>, n - 1\<close>): KeyError when \<open>i\<close> is not one of its labels.\<close>

definition series_getitem :: "'a list \<Rightarrow> nat \<Rightarrow> py_error + 'a" where
  "series_getitem col i = (if i < length col then Inr (col ! i) else Inl KeyError)"

text \<open>The length of a Python sequence is at most \<^verbatim>\<open>sys.maxsize\<close>, which is
  \<open>2^63 - 1\<close> on a 64-bit platform (and smaller elsewhere).\<close>

definition py_maxsize :: nat where
  "py_maxsize = 2 ^ 63 - 1"

section \<open>The table\<close>

text \<open>
  \<^verbatim>\<open>data\<close> is the table read from the CSV file; the code reads three of its columns.
  The truth column \<^verbatim>\<open>isb\<close> holds labels, which the code only ever compares with
  \<open>0\<close> and \<open>1\<close>: a label is an \<open>int\<close>, and every value other than \<open>0\<close> and \<open>1\<close>
  stands for an entry that is neither.
\<close>

record dataframe =
  prob_b :: "pyfloat list"
  isb :: "int list"
  nnbjet :: "pyfloat list"

section \<open>The selection\<close>

text \<open>
  \<^verbatim>\<open>
  bquark=[]
  for i in np.arange(len(data['prob_b'])):
      if (data['prob_b'][i] > cut_prop_b) : bquark.append(1)
      else : bquark.append(0)
  \<close>
  The notebook runs this loop twice: on column \<^verbatim>\<open>prob_b\<close> with the cut
  \<^verbatim>\<open>cut_prop_b = 0.15\<close>, and on column \<^verbatim>\<open>nnbjet\<close> with the cut \<^verbatim>\<open>0.82\<close>.
  \<open>select_loop\<close> is the loop over the indices of the column (so every lookup is in
  range), with the list built so far.
\<close>

fun select_loop :: "pyfloat list \<Rightarrow> pyfloat \<Rightarrow> nat list \<Rightarrow> int list \<Rightarrow> int list" where
  "select_loop column thr [] bquark = bquark"
| "select_loop column thr (i # idx) bquark =
     select_loop column thr idx
       (if float_gt (column ! i) thr then bquark @ [1] else bquark @ [0])"

definition select_bquark :: "pyfloat list \<Rightarrow> pyfloat \<Rightarrow> int list" where
  "select_bquark column thr = select_loop column thr [0..<length column] []"

definition cut_prop_b :: pyfloat where
  "cut_prop_b = float_lit (15 / 100)"

definition bquark_prob_b :: "dataframe \<Rightarrow> int list" where
  "bquark_prob_b data = select_bquark (prob_b data) cut_prop_b"

definition bquark_nnbjet :: "dataframe \<Rightarrow> int list" where
  "bquark_nnbjet data = select_bquark (nnbjet data) (float_lit (82 / 100))"

section \<open>The evaluation\<close>

text \<open>
  \<^verbatim>\<open>
  def evaluate(bquark) :
      N = [[0,0], [0,0]]
      for i in np.arange(len(data['isb'])):
          if (bquark[i] == 0 and data['isb'][i] == 0) : N[0][0] += 1
          if (bquark[i] == 0 and data['isb'][i] == 1) : N[0][1] += 1
          if (bquark[i] == 1 and data['isb'][i] == 0) : N[1][0] += 1
          if (bquark[i] == 1 and data['isb'][i] == 1) : N[1][1] += 1
      fracWrong = float(N[0][1]+N[1][0])/float(len(data['isb']))
      accuracy = 1.0 - fracWrong
      return N, accuracy, fracWrong
  \<close>
  \<^verbatim>\<open>data\<close> is a global of the notebook; the model takes it as a parameter.
\<close>

text \<open>\<^verbatim>\<open>N[p][a] += 1\<close>\<close>

definition incr :: "int list list \<Rightarrow> nat \<Rightarrow> nat \<Rightarrow> int list list" where
  "incr N p a = N[p := (N ! p)[a := N ! p ! a + 1]]"

text \<open>
  The condition \<^verbatim>\<open>bquark[i] == p and data['isb'][i] == a\<close>: \<^verbatim>\<open>bquark[i]\<close> raises
  IndexError when \<open>i\<close> is not an index of \<open>bquark\<close>; the truth column is read only when
  the first comparison holds.
\<close>

definition test_cell :: "int list \<Rightarrow> int list \<Rightarrow> nat \<Rightarrow> int \<Rightarrow> int \<Rightarrow> py_error + bool" where
  "test_cell bquark truth i p a =
     (case list_getitem bquark i of
        Inl e \<Rightarrow> Inl e
      | Inr b \<Rightarrow>
          if b = p
          then (case series_getitem truth i of Inl e \<Rightarrow> Inl e | Inr t \<Rightarrow> Inr (t = a))
          else Inr False)"

text \<open>\<^verbatim>\<open>if (bquark[i] == p and data['isb'][i] == a) : N[p][a] += 1\<close>\<close>

definition count_if :: "int list \<Rightarrow> int list \<Rightarrow> nat \<Rightarrow> nat \<Rightarrow> nat \<Rightarrow> int list list \<Rightarrow> py_error + int list list" where
  "count_if bquark truth i p a N =
     (case test_cell bquark truth i (int p) (int a) of
        Inl e \<Rightarrow> Inl e
      | Inr c \<Rightarrow> Inr (if c then incr N p a else N))"

text \<open>One iteration of the loop: the four \<^verbatim>\<open>if\<close>s, one after the other.\<close>

definition evaluate_body :: "int list \<Rightarrow> int list \<Rightarrow> nat \<Rightarrow> int list list \<Rightarrow> py_error + int list list" where
  "evaluate_body bquark truth i N =
     (case count_if bquark truth i 0 0 N of
        Inl e \<Rightarrow> Inl e
      | Inr N1 \<Rightarrow>
          (case count_if bquark truth i 0 1 N1 of
             Inl e \<Rightarrow> Inl e
           | Inr N2 \<Rightarrow>
               (case count_if bquark truth i 1 0 N2 of
                  Inl e \<Rightarrow> Inl e
                | Inr N3 \<Rightarrow> count_if bquark truth i 1 1 N3)))"

text \<open>The loop over \<^verbatim>\<open>np.arange(len(data['isb']))\<close>, with the table built so far.\<close>

fun evaluate_loop :: "int list \<Rightarrow> int list \<Rightarrow> nat list \<Rightarrow> int list list \<Rightarrow> py_error + int list list" where
  "evaluate_loop bquark truth [] N = Inr N"
| "evaluate_loop bquark truth (i # idx) N =
     (case evaluate_body bquark truth i N of
        Inl e \<Rightarrow> Inl e
      | Inr N' \<Rightarrow> evaluate_loop bquark truth idx N')"

definition evaluate :: "dataframe \<Rightarrow> int list \<Rightarrow> py_error + (int list list \<times> pyfloat \<times> pyfloat)" where
  "evaluate data bquark =
     (case evaluate_loop bquark (isb data) [0..<length (isb data)] [[0, 0], [0, 0]] of
        Inl e \<Rightarrow> Inl e
      | Inr N \<Rightarrow>
          (case float_of_int (N ! 0 ! 1 + N ! 1 ! 0) of
             Inl e \<Rightarrow> Inl e
           | Inr num \<Rightarrow>
               (case float_of_int (int (length (isb data))) of
                  Inl e \<Rightarrow> Inl e
                | Inr den \<Rightarrow>
                    (case float_truediv num den of
                       Inl e \<Rightarrow> Inl e
                     | Inr fracWrong \<Rightarrow>
                         let accuracy = float_sub (Finite 1) fracWrong
                         in Inr (N, accuracy, fracWrong)))))"

section \<open>The evaluation on a store\<close>

text \<open>
  The same function once more, with the objects it touches in a store, so that what a call
  changes can be stated. A state of the notebook holds
  \<^item> \<open>heap\<close>: the objects, by address; a list of integers (the list \<^verbatim>\<open>bquark\<close>, a row of
    \<^verbatim>\<open>N\<close>, a column of labels), a column of floats, or a list of references (the table
    \<^verbatim>\<open>N\<close>, whose two rows are objects of their own);
  \<^item> \<open>fresh\<close>: the next unused address; the objects allocated so far are below it;
  \<^item> \<open>columns\<close>: the global table \<^verbatim>\<open>data\<close>, as the address of each named column;
  \<^item> \<open>printed\<close>: the lines printed so far.
  \<^verbatim>\<open>evaluate(bquark)\<close> receives the address \<open>b\<close> of a list, and returns its result or
  exception together with the state it leaves.
\<close>

type_synonym addr = nat

datatype pyobj = IntList "int list" | FloatList "pyfloat list" | RefList "addr list"

record pystate =
  heap :: "addr \<Rightarrow> pyobj option"
  fresh :: addr
  columns :: "(string \<times> addr) list"
  printed :: "string list"

text \<open>Allocating a new object.\<close>

definition alloc :: "pystate \<Rightarrow> pyobj \<Rightarrow> addr \<times> pystate" where
  "alloc s obj = (fresh s, s\<lparr>heap := (heap s)(fresh s \<mapsto> obj), fresh := Suc (fresh s)\<rparr>)"

text \<open>Reading an object as a list of integers or of references: TypeError for another
  kind of object (or none). \<^verbatim>\<open>data[name]\<close> raises KeyError for a missing column.\<close>

definition read_ints :: "pystate \<Rightarrow> addr \<Rightarrow> py_error + int list" where
  "read_ints s a = (case heap s a of Some (IntList xs) \<Rightarrow> Inr xs | _ \<Rightarrow> Inl TypeError)"

definition read_refs :: "pystate \<Rightarrow> addr \<Rightarrow> py_error + addr list" where
  "read_refs s a = (case heap s a of Some (RefList rs) \<Rightarrow> Inr rs | _ \<Rightarrow> Inl TypeError)"

definition read_column :: "pystate \<Rightarrow> string \<Rightarrow> py_error + int list" where
  "read_column s name =
     (case map_of (columns s) name of
        None \<Rightarrow> Inl KeyError
      | Some c \<Rightarrow> read_ints s c)"

text \<open>\<^verbatim>\<open>bquark[i] == p and data['isb'][i] == a\<close>\<close>

definition test_cell_store :: "pystate \<Rightarrow> addr \<Rightarrow> nat \<Rightarrow> int \<Rightarrow> int \<Rightarrow> py_error + bool" where
  "test_cell_store s b i p a =
     (case read_ints s b of
        Inl e \<Rightarrow> Inl e
      | Inr bquark \<Rightarrow>
          (case list_getitem bquark i of
             Inl e \<Rightarrow> Inl e
           | Inr v \<Rightarrow>
               if v = p
               then (case read_column s ''isb'' of
                       Inl e \<Rightarrow> Inl e
                     | Inr truth \<Rightarrow>
                         (case series_getitem truth i of
                            Inl e \<Rightarrow> Inl e
                          | Inr t \<Rightarrow> Inr (t = a)))
               else Inr False))"

text \<open>\<^verbatim>\<open>N[p][a] += 1\<close>: the row \<^verbatim>\<open>N[p]\<close> is changed in place.\<close>

definition incr_store :: "pystate \<Rightarrow> addr \<Rightarrow> nat \<Rightarrow> nat \<Rightarrow> py_error + pystate" where
  "incr_store s n p a =
     (case read_refs s n of
        Inl e \<Rightarrow> Inl e
      | Inr rows \<Rightarrow>
          (case list_getitem rows p of
             Inl e \<Rightarrow> Inl e
           | Inr r \<Rightarrow>
               (case read_ints s r of
                  Inl e \<Rightarrow> Inl e
                | Inr xs \<Rightarrow>
                    (case list_getitem xs a of
                       Inl e \<Rightarrow> Inl e
                     | Inr v \<Rightarrow> Inr (s\<lparr>heap := (heap s)(r \<mapsto> IntList (xs[a := v + 1]))\<rparr>)))))"

text \<open>\<^verbatim>\<open>if (bquark[i] == p and data['isb'][i] == a) : N[p][a] += 1\<close>\<close>

definition count_if_store :: "pystate \<Rightarrow> addr \<Rightarrow> addr \<Rightarrow> nat \<Rightarrow> nat \<Rightarrow> nat \<Rightarrow> (py_error + unit) \<times> pystate" where
  "count_if_store s b n i p a =
     (case test_cell_store s b i (int p) (int a) of
        Inl e \<Rightarrow> (Inl e, s)
      | Inr c \<Rightarrow>
          if c
          then (case incr_store s n p a of
                  Inl e \<Rightarrow> (Inl e, s)
                | Inr s' \<Rightarrow> (Inr (), s'))
          else (Inr (), s))"

text \<open>One iteration, and the loop over \<^verbatim>\<open>np.arange(len(data['isb']))\<close>.\<close>

definition evaluate_body_store :: "pystate \<Rightarrow> addr \<Rightarrow> addr \<Rightarrow> nat \<Rightarrow> (py_error + unit) \<times> pystate" where
  "evaluate_body_store s b n i =
     (case count_if_store s b n i 0 0 of
        (Inl e, s1) \<Rightarrow> (Inl e, s1)
      | (Inr u, s1) \<Rightarrow>
          (case count_if_store s1 b n i 0 1 of
             (Inl e, s2) \<Rightarrow> (Inl e, s2)
           | (Inr u, s2) \<Rightarrow>
               (case count_if_store s2 b n i 1 0 of
                  (Inl e, s3) \<Rightarrow> (Inl e, s3)
                | (Inr u, s3) \<Rightarrow> count_if_store s3 b n i 1 1)))"

fun evaluate_loop_store :: "pystate \<Rightarrow> addr \<Rightarrow> addr \<Rightarrow> nat list \<Rightarrow> (py_error + unit) \<times> pystate" where
  "evaluate_loop_store s b n [] = (Inr (), s)"
| "evaluate_loop_store s b n (i # idx) =
     (case evaluate_body_store s b n i of
        (Inl e, s') \<Rightarrow> (Inl e, s')
      | (Inr u, s') \<Rightarrow> evaluate_loop_store s' b n idx)"

text \<open>\<^verbatim>\<open>N[p][a]\<close>\<close>

definition read_cell :: "pystate \<Rightarrow> addr \<Rightarrow> nat \<Rightarrow> nat \<Rightarrow> py_error + int" where
  "read_cell s n p a =
     (case read_refs s n of
        Inl e \<Rightarrow> Inl e
      | Inr rows \<Rightarrow>
          (case list_getitem rows p of
             Inl e \<Rightarrow> Inl e
           | Inr r \<Rightarrow>
               (case read_ints s r of
                  Inl e \<Rightarrow> Inl e
                | Inr xs \<Rightarrow> list_getitem xs a)))"

text \<open>
  The function: \<^verbatim>\<open>N = [[0,0], [0,0]]\<close> allocates the two rows and the list of their
  addresses; the loop bound \<^verbatim>\<open>len(data['isb'])\<close> is computed once, before the loop; the
  result carries the address of \<^verbatim>\<open>N\<close>.
\<close>

definition evaluate_store :: "pystate \<Rightarrow> addr \<Rightarrow> (py_error + addr \<times> pyfloat \<times> pyfloat) \<times> pystate" where
  "evaluate_store s b =
     (let (r0, s1) = alloc s (IntList [0, 0]);
          (r1, s2) = alloc s1 (IntList [0, 0]);
          (n, s3) = alloc s2 (RefList [r0, r1])
      in case read_column s3 ''isb'' of
           Inl e \<Rightarrow> (Inl e, s3)
         | Inr truth \<Rightarrow>
             (case evaluate_loop_store s3 b n [0..<length truth] of
                (Inl e, s4) \<Rightarrow> (Inl e, s4)
              | (Inr u, s4) \<Rightarrow>
                  (case read_cell s4 n 0 1 of
                     Inl e \<Rightarrow> (Inl e, s4)
                   | Inr n01 \<Rightarrow>
                       (case read_cell s4 n 1 0 of
                          Inl e \<Rightarrow> (Inl e, s4)
                        | Inr n10 \<Rightarrow>
                            (case float_of_int (n01 + n10) of
                               Inl e \<Rightarrow> (Inl e, s4)
                             | Inr num \<Rightarrow>
                                 (case read_column s4 ''isb'' of
                                    Inl e \<Rightarrow> (Inl e, s4)
                                  | Inr truth' \<Rightarrow>
                                      (case float_of_int (int (length truth')) of
                                         Inl e \<Rightarrow> (Inl e, s4)
                                       | Inr den \<Rightarrow>
                                           (case float_truediv num den of
                                              Inl e \<Rightarrow> (Inl e, s4)
                                            | Inr fracWrong \<Rightarrow>
                                                let accuracy = float_sub (Finite 1) fracWrong
                                                in (Inr (n, accuracy, fracWrong), s4)))))))))"

text \<open>The table of counts found at an address, and the report a call returns with the
  table read through its address, as the caller sees it.\<close>

definition table_at :: "pystate \<Rightarrow> addr \<Rightarrow> int list list" where
  "table_at s n =
     (case heap s n of
        Some (RefList rows) \<Rightarrow>
          map (\<lambda>r. case heap s r of Some (IntList xs) \<Rightarrow> xs | _ \<Rightarrow> []) rows
      | _ \<Rightarrow> [])"

definition report :: "(py_error + addr \<times> pyfloat \<times> pyfloat) \<times> pystate \<Rightarrow> py_error + int list list \<times> pyfloat \<times> pyfloat" where
  "report rs =
     (case fst rs of
        Inl e \<Rightarrow> Inl e
      | Inr (n, accuracy, fracWrong) \<Rightarrow> Inr (table_at (snd rs) n, accuracy, fracWrong))"

text \<open>In state \<open>s\<close>, the allocated object at \<open>b\<close> is the list \<open>bquark\<close> and the column
  \<^verbatim>\<open>data['isb']\<close> is an allocated object holding \<open>truth\<close>.\<close>

definition sees :: "pystate \<Rightarrow> addr \<Rightarrow> int list \<Rightarrow> int list \<Rightarrow> bool" where
  "sees s b bquark truth =
     (b < fresh s \<and> heap s b = Some (IntList bquark)
      \<and> (case map_of (columns s) ''isb'' of
            None \<Rightarrow> False
          | Some c \<Rightarrow> c < fresh s \<and> heap s c = Some (IntList truth)))"

section \<open>Vocabulary of the claims\<close>

text \<open>A binary label sequence holds only \<open>0\<close> and \<open>1\<close>.\<close>

definition binary :: "int list \<Rightarrow> bool" where
  "binary xs = list_all (\<lambda>v. v = 0 \<or> v = 1) xs"

text \<open>The number of indices in \<open>idx\<close> at which the predicted label is \<open>p\<close> and the
  actual label is \<open>a\<close>.\<close>

definition cell_count :: "int list \<Rightarrow> int list \<Rightarrow> nat list \<Rightarrow> int \<Rightarrow> int \<Rightarrow> int" where
  "cell_count predicted actual idx p a =
     int (length (filter (\<lambda>i. predicted ! i = p \<and> actual ! i = a) idx))"

text \<open>The counting loop in the words of the specification: for each index \<open>i\<close>,
  increment the count at \<open>(predicted[i], actual[i])\<close>.\<close>

fun spec_count_loop :: "int list \<Rightarrow> int list \<Rightarrow> nat list \<Rightarrow> int list list \<Rightarrow> int list list" where
  "spec_count_loop predicted actual [] count = count"
| "spec_count_loop predicted actual (i # idx) count =
     spec_count_loop predicted actual idx
       (incr count (nat (predicted ! i)) (nat (actual ! i)))"

definition spec_counts :: "int list \<Rightarrow> int list \<Rightarrow> int list list" where
  "spec_counts predicted actual =
     spec_count_loop predicted actual [0..<length actual] [[0, 0], [0, 0]]"

text \<open>The table of the four counts over all indices of the actual sequence, the number of
  wrong predictions among them, and the fraction of wrong predictions as floats compute
  it: both integers converted, then divided.\<close>

definition confusion :: "int list \<Rightarrow> int list \<Rightarrow> int list list" where
  "confusion predicted actual =
     (let idx = [0..<length actual]
      in [[cell_count predicted actual idx 0 0, cell_count predicted actual idx 0 1],
          [cell_count predicted actual idx 1 0, cell_count predicted actual idx 1 1]])"

definition wrong :: "int list \<Rightarrow> int list \<Rightarrow> int" where
  "wrong predicted actual =
     cell_count predicted actual [0..<length actual] 0 1
       + cell_count predicted actual [0..<length actual] 1 0"

definition frac_wrong :: "int list \<Rightarrow> int list \<Rightarrow> rat" where
  "frac_wrong predicted actual =
     round64 (round64 (of_int (wrong predicted actual)) / round64 (of_int (int (length actual))))"


text \<open>Two states differ at most in the heap at the addresses in \<open>A\<close>.\<close>

definition only_at :: "addr set \<Rightarrow> pystate \<Rightarrow> pystate \<Rightarrow> bool" where
  "only_at A s s' =
     ((\<forall>a. a \<notin> A \<longrightarrow> heap s' a = heap s a)
      \<and> fresh s' = fresh s \<and> columns s' = columns s \<and> printed s' = printed s)"

text \<open>The state after the three allocations of \<^verbatim>\<open>N = [[0,0], [0,0]]\<close>.\<close>

definition with_table :: "pystate \<Rightarrow> pystate" where
  "with_table s =
     s\<lparr>heap := (heap s)(fresh s \<mapsto> IntList [0, 0], Suc (fresh s) \<mapsto> IntList [0, 0],
                          Suc (Suc (fresh s)) \<mapsto> RefList [fresh s, Suc (fresh s)]),
       fresh := Suc (Suc (Suc (fresh s)))\<rparr>"

text \<open>What the loop of \<open>evaluate_store\<close> keeps true: \<open>b\<close> and the truth column \<open>c\<close> hold the
  two sequences, \<open>n\<close> holds the addresses \<open>r0\<close>, \<open>r1\<close> of the two rows of the table \<open>N\<close>,
  and the rows are objects of their own.\<close>

definition table_inv :: "pystate \<Rightarrow> addr \<Rightarrow> addr \<Rightarrow> int list \<Rightarrow> int list \<Rightarrow> addr \<Rightarrow> addr \<Rightarrow> addr \<Rightarrow> int list list \<Rightarrow> bool" where
  "table_inv s b c bquark truth n r0 r1 N =
     (heap s b = Some (IntList bquark)
      \<and> map_of (columns s) ''isb'' = Some c \<and> heap s c = Some (IntList truth)
      \<and> heap s n = Some (RefList [r0, r1])
      \<and> heap s r0 = Some (IntList (N ! 0)) \<and> heap s r1 = Some (IntList (N ! 1))
      \<and> length N = 2 \<and> length (N ! 0) = 2 \<and> length (N ! 1) = 2
      \<and> r0 \<noteq> r1 \<and> b \<noteq> r0 \<and> b \<noteq> r1 \<and> c \<noteq> r0 \<and> c \<noteq> r1 \<and> n \<noteq> r0 \<and> n \<noteq> r1)"

section \<open>Float rounding\<close>

lemma bit_length_pos: "0 < n \<Longrightarrow> 1 \<le> bit_length n"
proof (induction n rule: bit_length.induct)
  case (1 n)
  have "0 \<le> bit_length (n div 2)"
  proof (cases "0 < n div 2")
    case True
    with 1 show ?thesis by simp
  next
    case False
    then show ?thesis by (simp add: bit_length.simps [of "n div 2"])
  qed
  with 1 show ?case by (simp add: bit_length.simps [of n])
qed

lemma bit_length_bounds:
  "0 < n \<Longrightarrow> 2 ^ nat (bit_length n - 1) \<le> n \<and> n < 2 ^ nat (bit_length n)"
proof (induction n rule: bit_length.induct)
  case (1 n)
  show ?case
  proof (cases "n = 1")
    case True
    then show ?thesis by (simp add: bit_length.simps [of 1] bit_length.simps [of 0])
  next
    case False
    with 1 have m: "0 < n div 2" by simp
    define k where "k = nat (bit_length (n div 2) - 1)"
    from m have bl: "1 \<le> bit_length (n div 2)" by (rule bit_length_pos)
    have bn: "bit_length n = 1 + bit_length (n div 2)"
      using 1 by (simp add: bit_length.simps [of n])
    from 1 m have ih: "2 ^ k \<le> n div 2 \<and> n div 2 < 2 ^ nat (bit_length (n div 2))"
      by (simp add: k_def)
    have e1: "nat (bit_length (n div 2)) = Suc k" using bl by (simp add: k_def)
    have e2: "nat (bit_length n - 1) = Suc k" using bl bn by (simp add: k_def)
    have e3: "nat (bit_length n) = Suc (Suc k)" using bl bn by (simp add: k_def)
    from ih e1 have a: "2 ^ k \<le> n div 2" and b: "n div 2 < 2 ^ Suc k" by simp_all
    have "2 * 2 ^ k \<le> n" using a by linarith
    moreover have "n < 2 * 2 ^ Suc k" using b by linarith
    ultimately show ?thesis by (simp add: e2 e3)
  qed
qed

lemma bit_length_powi:
  assumes "0 < n"
  shows "2 powi (bit_length n - 1) \<le> (of_int n :: rat)" and "(of_int n :: rat) < 2 powi (bit_length n)"
proof -
  from assms have p: "1 \<le> bit_length n" by (rule bit_length_pos)
  from bit_length_bounds [OF assms]
  have a: "2 ^ nat (bit_length n - 1) \<le> n" and b: "n < 2 ^ nat (bit_length n)" by simp_all
  have "(of_int (2 ^ nat (bit_length n - 1)) :: rat) \<le> of_int n" using a by (simp only: of_int_le_iff)
  then show "2 powi (bit_length n - 1) \<le> (of_int n :: rat)"
    using p by (simp add: power_int_def)
  have "(of_int n :: rat) < of_int (2 ^ nat (bit_length n))" using b by (simp only: of_int_less_iff)
  then show "(of_int n :: rat) < 2 powi (bit_length n)"
    using p by (simp add: power_int_def)
qed

lemma ilog2_bounds:
  assumes "0 < x"
  shows "2 powi (ilog2 x) \<le> x" and "x < 2 powi (ilog2 x + 1)"
proof -
  obtain p q where pq: "quotient_of x = (p, q)" by (cases "quotient_of x")
  then have q: "0 < q" by (rule quotient_of_denom_pos)
  from pq have x: "x = of_int p / of_int q" by (rule quotient_of_div)
  from assms x q have p: "0 < p" by (simp add: zero_less_divide_iff)
  define d where "d = bit_length p - bit_length q"
  note bp = bit_length_powi [OF p] and bq = bit_length_powi [OF q]
  have qr: "(0::rat) < of_int q" using q by simp
  have lo: "2 powi (d - 1) \<le> x"
  proof -
    have "2 powi (d - 1) * of_int q \<le> 2 powi (d - 1) * (2 powi (bit_length q) :: rat)"
      using bq(2) by (intro mult_left_mono) simp_all
    also have "\<dots> = 2 powi (bit_length p - 1)"
      by (simp add: d_def power_int_add [symmetric])
    also have "\<dots> \<le> of_int p" by (rule bp(1))
    finally show ?thesis using qr by (simp add: x pos_le_divide_eq)
  qed
  have hi: "x < 2 powi (d + 1)"
  proof -
    have "of_int p < (2 powi (bit_length p) :: rat)" by (rule bp(2))
    also have "\<dots> = 2 powi (d + 1) * 2 powi (bit_length q - 1)"
      by (simp add: d_def power_int_add [symmetric])
    also have "\<dots> \<le> 2 powi (d + 1) * of_int q"
      using bq(1) by (intro mult_left_mono) simp_all
    finally show ?thesis using qr by (simp add: x pos_divide_less_eq)
  qed
  have il: "ilog2 x = (if 2 powi d \<le> x then d else d - 1)"
    by (simp add: ilog2_def pq d_def)
  show "2 powi (ilog2 x) \<le> x" using lo by (simp add: il)
  show "x < 2 powi (ilog2 x + 1)" using hi by (auto simp add: il not_le)
qed

lemma pow2_less_cancel: "(2::rat) powi a < 2 powi b \<Longrightarrow> a < b"
  using power_int_increasing [of b a "2::rat"] by (cases "a < b") simp_all

lemma ilog2_unique:
  assumes "0 < x" and "2 powi e \<le> x" and "x < 2 powi (e + 1)"
  shows "ilog2 x = e"
proof -
  note b = ilog2_bounds [OF assms(1)]
  have "(2::rat) powi e < 2 powi (ilog2 x + 1)" using assms(2) b(2) by (rule le_less_trans)
  then have 1: "e < ilog2 x + 1" by (rule pow2_less_cancel)
  have "(2::rat) powi (ilog2 x) < 2 powi (e + 1)" using b(1) assms(3) by (rule le_less_trans)
  then have 2: "ilog2 x < e + 1" by (rule pow2_less_cancel)
  from 1 2 show ?thesis by simp
qed

lemma rhe_cases:
  "round_half_even m = \<lfloor>m\<rfloor> \<and> m - of_int \<lfloor>m\<rfloor> \<le> 1 / 2
   \<or> round_half_even m = \<lfloor>m\<rfloor> + 1 \<and> 1 / 2 \<le> m - of_int \<lfloor>m\<rfloor>"
  by (auto simp add: round_half_even_def Let_def)

lemma rhe_err: "\<bar>of_int (round_half_even m) - m\<bar> \<le> 1 / 2"
proof -
  have "of_int \<lfloor>m\<rfloor> \<le> m" and "m < of_int \<lfloor>m\<rfloor> + 1" by linarith+
  with rhe_cases [of m] show ?thesis by auto
qed

lemma rhe_of_int [simp]: "round_half_even (of_int k) = k"
  by (simp add: round_half_even_def)

lemma rhe_numeral [simp]: "round_half_even (numeral k) = numeral k"
  using rhe_of_int [of "numeral k"] by simp

lemma rhe_zero [simp]: "round_half_even 0 = 0"
  using rhe_of_int [of 0] by simp

lemma rhe_one [simp]: "round_half_even 1 = 1"
  using rhe_of_int [of 1] by simp

lemma rhe_mono:
  assumes "m \<le> m'"
  shows "round_half_even m \<le> round_half_even m'"
proof -
  from assms have f: "\<lfloor>m\<rfloor> \<le> \<lfloor>m'\<rfloor>" by (rule floor_mono)
  show ?thesis
  proof (cases "\<lfloor>m\<rfloor> = \<lfloor>m'\<rfloor>")
    case True
    with assms show ?thesis
      by (auto simp add: round_half_even_def Let_def)
  next
    case False
    with f have "\<lfloor>m\<rfloor> + 1 \<le> \<lfloor>m'\<rfloor>" by simp
    moreover have "round_half_even m \<le> \<lfloor>m\<rfloor> + 1" using rhe_cases [of m] by auto
    moreover have "\<lfloor>m'\<rfloor> \<le> round_half_even m'" using rhe_cases [of m'] by auto
    ultimately show ?thesis by linarith
  qed
qed

lemma rhe_ge: "of_int k \<le> m \<Longrightarrow> k \<le> round_half_even m"
  using rhe_mono [of "of_int k" m] by simp

lemma rhe_le: "m \<le> of_int k \<Longrightarrow> round_half_even m \<le> k"
  using rhe_mono [of m "of_int k"] by simp

lemma ulp_pos [simp]: "0 < ulp x"
  by (simp add: ulp_def)

lemma ulp_nonneg [simp]: "0 \<le> ulp x"
  by (simp add: ulp_def)

lemma ulp_nonzero [simp]: "ulp x \<noteq> 0"
  by (simp add: ulp_def)

lemma round64_pos: "0 < x \<Longrightarrow> round64 x = of_int (round_half_even (x / ulp x)) * ulp x"
  by (simp add: round64_def)

lemma round64_zero [simp]: "round64 0 = 0"
  by (simp add: round64_def)

lemma round64_eval:
  assumes "0 < x" "2 powi e \<le> x" "x < 2 powi (e + 1)" "- 1022 \<le> e"
  shows "round64 x = of_int (round_half_even (x / 2 powi (e - 52))) * 2 powi (e - 52)"
proof -
  have "ilog2 x = e" using assms(1-3) by (rule ilog2_unique)
  with assms(4) have "ulp x = 2 powi (e - 52)" by (simp add: ulp_def expo_def)
  with assms(1) show ?thesis by (simp add: round64_pos)
qed

lemma round64_nonneg: "0 \<le> x \<Longrightarrow> 0 \<le> round64 x"
proof (cases "x = 0")
  case False
  assume "0 \<le> x"
  with False have x: "0 < x" by simp
  have "0 \<le> x / ulp x" using x by (simp add: zero_le_divide_iff)
  then have "0 \<le> round_half_even (x / ulp x)" using rhe_ge [of 0] by simp
  then show ?thesis using x by (simp add: round64_pos)
qed simp

lemma expo_upper: "0 < x \<Longrightarrow> x < 2 powi (expo x + 1)"
proof -
  assume x: "0 < x"
  have "x < 2 powi (ilog2 x + 1)" using x by (rule ilog2_bounds)
  also have "\<dots> \<le> 2 powi (expo x + 1)"
    by (rule power_int_increasing) (simp_all add: expo_def)
  finally show ?thesis .
qed

lemma expo_lower: "0 < x \<Longrightarrow> - 1022 < expo x \<Longrightarrow> 2 powi (expo x) \<le> x"
  using ilog2_bounds(1) [of x] by (simp add: expo_def max_def split: if_splits)

lemma ilog2_mono:
  assumes "0 < x" "x \<le> y"
  shows "ilog2 x \<le> ilog2 y"
proof -
  from assms have y: "0 < y" by simp
  have "2 powi (ilog2 x) \<le> x" using assms(1) by (rule ilog2_bounds)
  also note assms(2)
  also have "y < 2 powi (ilog2 y + 1)" using y by (rule ilog2_bounds)
  finally have "ilog2 x < ilog2 y + 1" by (rule pow2_less_cancel)
  then show ?thesis by simp
qed

lemma expo_mono: "0 < x \<Longrightarrow> x \<le> y \<Longrightarrow> expo x \<le> expo y"
  using ilog2_mono [of x y] by (simp add: expo_def)

lemma pow2_split: "(2::rat) powi (e + 1) = 2 ^ 53 * 2 powi (e - 52)"
proof -
  have "(2::rat) powi (53 + (e - 52)) = 2 powi 53 * 2 powi (e - 52)"
    by (rule power_int_add) simp
  then show ?thesis by (simp add: add.commute)
qed

lemma pow2_split': "(2::rat) powi e = 2 ^ 52 * 2 powi (e - 52)"
proof -
  have "(2::rat) powi (52 + (e - 52)) = 2 powi 52 * 2 powi (e - 52)"
    by (rule power_int_add) simp
  then show ?thesis by simp
qed

lemma round64_upper:
  assumes "0 < x"
  shows "round64 x \<le> 2 powi (expo x + 1)"
proof -
  have "x < 2 ^ 53 * ulp x" using expo_upper [OF assms] by (simp add: pow2_split ulp_def)
  then have "x / ulp x \<le> of_int (2 ^ 53)" by (simp add: pos_divide_le_eq)
  then have "round_half_even (x / ulp x) \<le> 2 ^ 53" by (rule rhe_le)
  then have "(of_int (round_half_even (x / ulp x)) :: rat) \<le> of_int (2 ^ 53)"
    by (simp only: of_int_le_iff)
  then have "of_int (round_half_even (x / ulp x)) * ulp x \<le> 2 ^ 53 * ulp x"
    by (simp add: mult_right_mono)
  then show ?thesis using assms by (simp add: round64_pos pow2_split [of "expo x"] ulp_def)
qed

lemma round64_lower:
  assumes "0 < x" "- 1022 < expo x"
  shows "2 powi (expo x) \<le> round64 x"
proof -
  have "2 ^ 52 * ulp x \<le> x" using expo_lower [OF assms] by (simp add: pow2_split' [of "expo x"] ulp_def)
  then have "of_int (2 ^ 52) \<le> x / ulp x" by (simp add: pos_le_divide_eq)
  then have "2 ^ 52 \<le> round_half_even (x / ulp x)" by (rule rhe_ge)
  then have "(of_int (2 ^ 52) :: rat) \<le> of_int (round_half_even (x / ulp x))"
    by (simp only: of_int_le_iff)
  then have "2 ^ 52 * ulp x \<le> of_int (round_half_even (x / ulp x)) * ulp x"
    by (simp add: mult_right_mono)
  then show ?thesis using assms by (simp add: round64_pos pow2_split' [of "expo x"] ulp_def)
qed

lemma round64_mono:
  assumes "0 \<le> x" "x \<le> y"
  shows "round64 x \<le> round64 y"
proof (cases "x = 0")
  case True
  with assms show ?thesis by (simp add: round64_nonneg)
next
  case False
  with assms have x: "0 < x" and y: "0 < y" by simp_all
  have e: "expo x \<le> expo y" using x assms(2) by (rule expo_mono)
  show ?thesis
  proof (cases "expo x = expo y")
    case True
    then have u: "ulp x = ulp y" by (simp add: ulp_def)
    have "x / ulp y \<le> y / ulp y" using assms(2) by (intro divide_right_mono) simp_all
    then have "round_half_even (x / ulp y) \<le> round_half_even (y / ulp y)" by (rule rhe_mono)
    then have "(of_int (round_half_even (x / ulp y)) :: rat) \<le> of_int (round_half_even (y / ulp y))"
      by (simp only: of_int_le_iff)
    then have "of_int (round_half_even (x / ulp y)) * ulp y \<le> of_int (round_half_even (y / ulp y)) * ulp y"
      by (simp add: mult_right_mono)
    then show ?thesis using x y by (simp add: round64_pos u)
  next
    case False
    with e have lt: "expo x + 1 \<le> expo y" by simp
    have m: "- 1022 \<le> expo x" by (simp add: expo_def)
    have "round64 x \<le> 2 powi (expo x + 1)" using x by (rule round64_upper)
    also have "\<dots> \<le> 2 powi (expo y)" using lt by (intro power_int_increasing) simp_all
    also have "\<dots> \<le> round64 y" using y lt m by (intro round64_lower) simp_all
    finally show ?thesis .
  qed
qed

lemma round64_err: "0 < x \<Longrightarrow> \<bar>round64 x - x\<bar> \<le> ulp x / 2"
proof -
  assume x: "0 < x"
  have "round64 x - x = (of_int (round_half_even (x / ulp x)) - x / ulp x) * ulp x"
    by (simp add: round64_pos x left_diff_distrib)
  then have "\<bar>round64 x - x\<bar> = \<bar>of_int (round_half_even (x / ulp x)) - x / ulp x\<bar> * ulp x"
    by (simp add: abs_mult)
  also have "\<dots> \<le> 1 / 2 * ulp x"
    by (intro mult_right_mono rhe_err) simp
  finally show ?thesis by simp
qed

lemma round64_one [simp]: "round64 1 = 1"
  using round64_eval [of 1 0] by simp

lemma round64_unit: "0 \<le> x \<Longrightarrow> x \<le> 1 \<Longrightarrow> 0 \<le> round64 x \<and> round64 x \<le> 1"
  using round64_mono [of x 1] round64_nonneg [of x] by simp

lemma round64_err_unit:
  assumes "0 \<le> x" "x \<le> 1"
  shows "\<bar>round64 x - x\<bar> \<le> 1 / 2 ^ 54"
proof -
  consider "x = 0" | "x = 1" | "0 < x" "x < 1" using assms by fastforce
  then show ?thesis
  proof cases
    case 3
    have "(2::rat) powi (ilog2 x) \<le> x" using 3(1) by (rule ilog2_bounds)
    also have "x < 2 powi 0" using 3(2) by simp
    finally have "ilog2 x < 0" by (rule pow2_less_cancel)
    then have "expo x - 52 \<le> - 53" by (simp add: expo_def)
    then have "ulp x \<le> 2 powi (- 53)" unfolding ulp_def by (intro power_int_increasing) simp_all
    then have "ulp x / 2 \<le> 1 / 2 ^ 54" by (simp add: power_int_minus field_simps)
    with round64_err [OF 3(1)] show ?thesis by linarith
  qed simp_all
qed

lemma round64_rel_err:
  assumes "1 \<le> x"
  shows "\<bar>round64 x - x\<bar> \<le> x / 2 ^ 53"
proof -
  from assms have x: "0 < x" by simp
  have "(2::rat) powi 0 \<le> x" using assms by simp
  also have "x < 2 powi (ilog2 x + 1)" using x by (rule ilog2_bounds)
  finally have "0 < ilog2 x + 1" by (rule pow2_less_cancel)
  then have e: "expo x = ilog2 x" by (simp add: expo_def)
  have "ulp x / 2 = 2 powi (ilog2 x) / 2 ^ 53"
    using pow2_split' [of "ilog2 x"] by (simp add: ulp_def e)
  also have "\<dots> \<le> x / 2 ^ 53" using ilog2_bounds(1) [OF x] by (simp add: divide_right_mono)
  finally show ?thesis using round64_err [OF x] by linarith
qed

lemma floor_rat_divide_numeral [simp]:
  "\<lfloor>numeral a / numeral b :: rat\<rfloor> = numeral a div numeral b"
  using floor_divide_of_int_eq [of "numeral a" "numeral b", where ?'a = rat] by simp

lemma round64_2 [simp]: "round64 2 = 2"
  using round64_eval [of 2 1] by simp

lemma round64_3 [simp]: "round64 3 = 3"
  using round64_eval [of 3 1] by simp

lemma round64_4 [simp]: "round64 4 = 4"
  using round64_eval [of 4 2] by simp

lemma round64_half [simp]: "round64 (1 / 2) = 1 / 2"
  using round64_eval [of "1 / 2" "- 1"] by simp

lemma round64_third: "round64 (1 / 3) = 6004799503160661 / 18014398509481984"
  using round64_eval [of "1 / 3" "- 2"] by (simp add: round_half_even_def Let_def)

lemma round64_two_thirds: "round64 (2 / 3) = 6004799503160661 / 9007199254740992"
  using round64_eval [of "2 / 3" "- 1"] by (simp add: round_half_even_def Let_def)

lemma round64_one_minus_third:
  "round64 (1 - 6004799503160661 / 18014398509481984) = 6004799503160662 / 9007199254740992"
  using round64_eval [of "1 - 6004799503160661 / 18014398509481984" "- 1"] by (simp add: round_half_even_def Let_def)

lemma round64_tenth: "round64 (1 / 10) = 3602879701896397 / 36028797018963968"
  using round64_eval [of "1 / 10" "- 4"] by (simp add: round_half_even_def Let_def)

lemma round64_nine_tenths: "round64 (9 / 10) = 8106479329266893 / 9007199254740992"
  using round64_eval [of "9 / 10" "- 1"] by (simp add: round_half_even_def Let_def)

lemma confusion_ex1: "confusion [0, 0, 1, 1] [0, 1, 0, 1] = [[1, 1], [1, 1]]"
  by (simp add: confusion_def cell_count_def)

lemma wrong_ex1: "wrong [0, 0, 1, 1] [0, 1, 0, 1] = 2"
  by (simp add: wrong_def cell_count_def)

section \<open>The loops\<close>

lemma count_if_in_range:
  "i < length bquark \<Longrightarrow> i < length truth \<Longrightarrow>
   count_if bquark truth i p a N
     = Inr (if bquark ! i = int p \<and> truth ! i = int a then incr N p a else N)"
  by (simp add: count_if_def test_cell_def list_getitem_def series_getitem_def)

lemma evaluate_body_cells:
  "i < length bquark \<Longrightarrow> i < length truth \<Longrightarrow>
   evaluate_body bquark truth i [[n00, n01], [n10, n11]] =
     Inr [[n00 + (if bquark ! i = 0 \<and> truth ! i = 0 then 1 else 0),
           n01 + (if bquark ! i = 0 \<and> truth ! i = 1 then 1 else 0)],
          [n10 + (if bquark ! i = 1 \<and> truth ! i = 0 then 1 else 0),
           n11 + (if bquark ! i = 1 \<and> truth ! i = 1 then 1 else 0)]]"
  by (simp add: evaluate_body_def count_if_in_range incr_def)

lemma evaluate_body_IndexError:
  "length bquark \<le> i \<Longrightarrow> evaluate_body bquark truth i N = Inl IndexError"
  by (simp add: evaluate_body_def count_if_def test_cell_def list_getitem_def)

lemma evaluate_body_Inr:
  "i < length bquark \<Longrightarrow> i < length truth \<Longrightarrow> \<exists>N'. evaluate_body bquark truth i N = Inr N'"
  by (simp add: evaluate_body_def count_if_in_range)

lemma cell_count_Nil [simp]: "cell_count predicted actual [] p a = 0"
  by (simp add: cell_count_def)

lemma cell_count_Cons:
  "cell_count predicted actual (i # idx) p a =
     (if predicted ! i = p \<and> actual ! i = a then 1 else 0) + cell_count predicted actual idx p a"
  by (simp add: cell_count_def)

lemma evaluate_loop_cells:
  "\<forall>i \<in> set idx. i < length bquark \<and> i < length truth \<Longrightarrow>
   evaluate_loop bquark truth idx [[n00, n01], [n10, n11]] =
     Inr [[n00 + cell_count bquark truth idx 0 0, n01 + cell_count bquark truth idx 0 1],
          [n10 + cell_count bquark truth idx 1 0, n11 + cell_count bquark truth idx 1 1]]"
proof (induction idx arbitrary: n00 n01 n10 n11)
  case Nil
  show ?case by simp
next
  case (Cons i idx)
  then have i: "i < length bquark" "i < length truth"
    and rest: "\<forall>j \<in> set idx. j < length bquark \<and> j < length truth" by simp_all
  show ?case
    by (simp only: evaluate_loop.simps evaluate_body_cells [OF i] sum.case Cons.IH [OF rest]
        cell_count_Cons) (simp add: add.assoc)
qed

lemma evaluate_loop_IndexError:
  "\<forall>i \<in> set idx. i < length truth \<Longrightarrow> \<exists>i \<in> set idx. length bquark \<le> i \<Longrightarrow>
   evaluate_loop bquark truth idx N = Inl IndexError"
proof (induction idx arbitrary: N)
  case Nil
  then show ?case by simp
next
  case (Cons i idx)
  show ?case
  proof (cases "length bquark \<le> i")
    case True
    then show ?thesis by (simp add: evaluate_body_IndexError)
  next
    case False
    with Cons.prems have rest: "\<forall>j \<in> set idx. j < length truth" "\<exists>j \<in> set idx. length bquark \<le> j"
      by simp_all
    from False Cons.prems obtain N' where "evaluate_body bquark truth i N = Inr N'"
      using evaluate_body_Inr [of i bquark truth N] by auto
    then show ?thesis by (simp add: Cons.IH [OF rest])
  qed
qed

lemma cell_count_nonneg [simp]: "0 \<le> cell_count predicted actual idx p a"
  by (simp add: cell_count_def)

lemma cell_count_total:
  "\<forall>i \<in> set idx. (predicted ! i = 0 \<or> predicted ! i = 1) \<and> (actual ! i = 0 \<or> actual ! i = 1) \<Longrightarrow>
   cell_count predicted actual idx 0 0 + cell_count predicted actual idx 0 1
     + cell_count predicted actual idx 1 0 + cell_count predicted actual idx 1 1 = int (length idx)"
proof (induction idx)
  case Nil
  show ?case by simp
next
  case (Cons i idx)
  then show ?case by (auto simp add: cell_count_Cons)
qed

lemma cell_count_le:
  "cell_count predicted actual idx 0 1 + cell_count predicted actual idx 1 0 \<le> int (length idx)"
proof (induction idx)
  case Nil
  show ?case by simp
next
  case (Cons i idx)
  then show ?case by (auto simp add: cell_count_Cons)
qed

lemma binary_nth: "binary xs \<Longrightarrow> i < length xs \<Longrightarrow> xs ! i = 0 \<or> xs ! i = 1"
  by (simp add: binary_def list_all_length)

lemma cell_count_agree:
  "\<forall>i \<in> set idx. predicted ! i = actual ! i \<Longrightarrow>
   cell_count predicted actual idx 0 1 = 0 \<and> cell_count predicted actual idx 1 0 = 0"
  by (induction idx) (auto simp add: cell_count_Cons)

lemma cell_count_disagree:
  "\<forall>i \<in> set idx. predicted ! i \<noteq> actual ! i \<Longrightarrow>
   cell_count predicted actual idx 0 0 = 0 \<and> cell_count predicted actual idx 1 1 = 0"
  by (induction idx) (auto simp add: cell_count_Cons)

lemma cell_count_take:
  "\<forall>i \<in> set idx. i < n \<Longrightarrow>
   cell_count (take n predicted) actual idx p a = cell_count predicted actual idx p a"
  by (induction idx) (auto simp add: cell_count_Cons)

lemma spec_count_loop_cells:
  "\<forall>i \<in> set idx. (predicted ! i = 0 \<or> predicted ! i = 1) \<and> (actual ! i = 0 \<or> actual ! i = 1) \<Longrightarrow>
   spec_count_loop predicted actual idx [[n00, n01], [n10, n11]] =
     [[n00 + cell_count predicted actual idx 0 0, n01 + cell_count predicted actual idx 0 1],
      [n10 + cell_count predicted actual idx 1 0, n11 + cell_count predicted actual idx 1 1]]"
proof (induction idx arbitrary: n00 n01 n10 n11)
  case Nil
  show ?case by simp
next
  case (Cons i idx)
  then have rest: "\<forall>j \<in> set idx. (predicted ! j = 0 \<or> predicted ! j = 1) \<and> (actual ! j = 0 \<or> actual ! j = 1)"
    and i: "predicted ! i = 0 \<or> predicted ! i = 1" "actual ! i = 0 \<or> actual ! i = 1"
    by simp_all
  from i show ?case
    by (auto simp add: incr_def Cons.IH [OF rest] cell_count_Cons)
qed

lemma select_loop_map:
  "select_loop column thr idx acc =
     acc @ map (\<lambda>i. if float_gt (column ! i) thr then 1 else 0) idx"
  by (induction idx arbitrary: acc) simp_all

lemma select_bquark_map:
  "select_bquark column thr = map (\<lambda>s. if float_gt s thr then 1 else 0) column"
proof -
  have "map (\<lambda>i. if float_gt (column ! i) thr then 1 else (0::int)) [0..<length column]
        = map (\<lambda>s. if float_gt s thr then 1 else 0) (map ((!) column) [0..<length column])"
    by (simp add: comp_def)
  then show ?thesis by (simp add: select_bquark_def select_loop_map map_nth)
qed


section \<open>What evaluate returns\<close>

lemma round64_2_63: "round64 (2 ^ 63) = 2 ^ 63"
  using round64_eval [of "2 ^ 63" 63] by simp

lemma float_round_finite: "- (2 ^ 1024) < round64 x \<Longrightarrow> round64 x < 2 ^ 1024 \<Longrightarrow> float_round x = Finite (round64 x)"
  by (simp add: float_round_def Let_def)

lemma float_round_unit: "0 \<le> x \<Longrightarrow> x \<le> 1 \<Longrightarrow> float_round x = Finite (round64 x)"
proof -
  assume "0 \<le> x" "x \<le> 1"
  then have "0 \<le> round64 x" "round64 x \<le> 1" using round64_unit by simp_all
  then show ?thesis by (intro float_round_finite) simp_all
qed

lemma round64_int_range:
  assumes "0 \<le> k" "k \<le> 2 ^ 63"
  shows "0 \<le> round64 (of_int k)" and "round64 (of_int k) \<le> 2 ^ 63"
proof -
  show "0 \<le> round64 (of_int k)" using assms(1) by (simp add: round64_nonneg)
  have "round64 (of_int k) \<le> round64 (2 ^ 63)"
    using assms by (intro round64_mono) (simp_all add: of_int_le_numeral_power_cancel_iff)
  then show "round64 (of_int k) \<le> 2 ^ 63" by (simp only: round64_2_63)
qed

lemma float_of_int_range:
  assumes "0 \<le> k" "k \<le> 2 ^ 63"
  shows "float_of_int k = Inr (Finite (round64 (of_int k)))"
proof -
  note r = round64_int_range [OF assms]
  have "float_round (of_int k) = Finite (round64 (of_int k))"
    using r by (intro float_round_finite) simp_all
  then show ?thesis by (simp add: float_of_int_def)
qed

lemma round64_ge_one: "1 \<le> x \<Longrightarrow> 1 \<le> round64 x"
  using round64_mono [of 1 x] by simp

lemma wrong_range: "0 \<le> wrong predicted actual \<and> wrong predicted actual \<le> int (length actual)"
  using cell_count_le [of predicted actual "[0..<length actual]"] by (simp add: wrong_def)

lemma frac_wrong_arg:
  assumes "0 < length actual"
  shows "0 \<le> round64 (of_int (wrong predicted actual)) / round64 (of_int (int (length actual)))"
    and "round64 (of_int (wrong predicted actual)) / round64 (of_int (int (length actual))) \<le> 1"
    and "1 \<le> round64 (of_int (int (length actual)))"
proof -
  let ?w = "round64 (of_int (wrong predicted actual))"
  let ?n = "round64 (of_int (int (length actual)))"
  have "1 \<le> int (length actual)" using assms by linarith
  then have "(1::rat) \<le> of_int (int (length actual))" by (simp only: of_int_1_le_iff)
  then show n: "1 \<le> ?n" by (rule round64_ge_one)
  have w: "0 \<le> ?w" using wrong_range [of predicted actual] by (simp add: round64_nonneg)
  have wn: "?w \<le> ?n" using wrong_range [of predicted actual] by (intro round64_mono) simp_all
  show "0 \<le> ?w / ?n" using w n by simp
  show "?w / ?n \<le> 1" using wn n by (simp add: divide_le_eq_1)
qed

lemma frac_wrong_unit:
  "0 < length actual \<Longrightarrow> 0 \<le> frac_wrong predicted actual \<and> frac_wrong predicted actual \<le> 1"
  unfolding frac_wrong_def using frac_wrong_arg(1,2) [of actual predicted] by (intro round64_unit)

lemma evaluate_loop_confusion:
  assumes "length (isb data) \<le> length bquark"
  shows "evaluate_loop bquark (isb data) [0..<length (isb data)] [[0, 0], [0, 0]]
         = Inr (confusion bquark (isb data))"
proof -
  have "\<forall>i \<in> set [0..<length (isb data)]. i < length bquark \<and> i < length (isb data)"
    using assms by simp
  then show ?thesis by (simp add: evaluate_loop_cells confusion_def Let_def)
qed

lemma evaluate_short_bquark:
  assumes "length bquark < length (isb data)"
  shows "evaluate data bquark = Inl IndexError"
proof -
  have "\<forall>i \<in> set [0..<length (isb data)]. i < length (isb data)" by simp
  moreover have "\<exists>i \<in> set [0..<length (isb data)]. length bquark \<le> i"
    using assms by (intro bexI [of _ "length bquark"]) simp_all
  ultimately have "evaluate_loop bquark (isb data) [0..<length (isb data)] [[0, 0], [0, 0]]
                   = Inl IndexError"
    by (rule evaluate_loop_IndexError)
  then show ?thesis by (simp add: evaluate_def)
qed

lemma confusion_wrong: "confusion predicted actual ! 0 ! 1 + confusion predicted actual ! 1 ! 0 = wrong predicted actual"
  by (simp add: confusion_def wrong_def Let_def)

lemma evaluate_returns:
  assumes "length (isb data) \<le> length bquark" "0 < length (isb data)" "length (isb data) \<le> py_maxsize"
  shows "evaluate data bquark =
           Inr (confusion bquark (isb data),
                Finite (round64 (1 - frac_wrong bquark (isb data))),
                Finite (frac_wrong bquark (isb data)))"
proof -
  let ?n = "int (length (isb data))"
  let ?w = "wrong bquark (isb data)"
  have n63: "?n \<le> 2 ^ 63" using assms(3) by (simp add: py_maxsize_def)
  note wr = wrong_range [of bquark "isb data"]
  have fw: "float_of_int ?w = Inr (Finite (round64 (of_int ?w)))"
    using wr n63 by (intro float_of_int_range) simp_all
  have fn: "float_of_int ?n = Inr (Finite (round64 (of_int ?n)))"
    using n63 by (intro float_of_int_range) simp_all
  note a = frac_wrong_arg(1,2) [OF assms(2), where predicted = bquark]
  have nz: "round64 (of_int ?n) \<noteq> 0" using frac_wrong_arg(3) [OF assms(2)] by simp
  have dv: "float_truediv (Finite (round64 (of_int ?w))) (Finite (round64 (of_int ?n)))
            = Inr (Finite (frac_wrong bquark (isb data)))"
    using nz a(1,2) by (simp add: float_round_unit frac_wrong_def)
  note u = frac_wrong_unit [OF assms(2), where predicted = bquark]
  have sb: "float_sub (Finite 1) (Finite (frac_wrong bquark (isb data)))
            = Finite (round64 (1 - frac_wrong bquark (isb data)))"
    using u by (simp add: float_round_unit)
  show ?thesis
    by (simp only: evaluate_def evaluate_loop_confusion [OF assms(1)] sum.case confusion_wrong
        fw fn dv sb Let_def)
qed

lemma quotient_perturb_gen:
  fixes w n w' n' e :: rat
  assumes w: "0 \<le> w" "w \<le> n" and n: "1 \<le> n" and e: "0 \<le> e" "e \<le> 1 / 4"
    and w': "\<bar>w' - w\<bar> \<le> w * e" and n': "\<bar>n' - n\<bar> \<le> n * e"
  shows "\<bar>w' / n' - w / n\<bar> \<le> 4 * e"
proof -
  define P where "P = w * n"
  define A where "A = w * n * e"
  define B where "B = n * n * e"
  define C where "C = n * n * e * e"
  have npos: "0 < n" using n by simp
  have AB: "A \<le> B" unfolding A_def B_def using w n e by (intro mult_right_mono) simp_all
  have A0: "0 \<le> A" unfolding A_def using w n e by simp
  have C0: "0 \<le> C" unfolding C_def using e by simp
  have "B * e \<le> B * (1 / 4)" unfolding B_def using e by (intro mult_left_mono) simp_all
  then have CB: "4 * C \<le> B" by (simp add: B_def C_def)
  have ne: "n * e \<le> n * (1 / 4)" using e npos by (intro mult_left_mono) simp_all
  have n'lo: "n - n * e \<le> n'" and n'hi: "n' \<le> n + n * e" using n' by linarith+
  have w'lo: "w - w * e \<le> w'" and w'hi: "w' \<le> w + w * e" using w' by linarith+
  have n'pos: "0 < n'" using n'lo ne npos by linarith
  have "w * e \<le> w * 1" using e w by (intro mult_left_mono) simp_all
  then have w'0: "0 \<le> w'" using w'lo by simp
  \<comment> \<open>upper bound, multiplied out by \<open>n * n'\<close>\<close>
  have "w' * n \<le> (w + w * e) * n" using w'hi npos by (intro mult_right_mono) simp_all
  also have "\<dots> = P + A" by (simp add: P_def A_def algebra_simps)
  finally have u1: "w' * n \<le> P + A" .
  have "(w + 4 * e * n) * (n - n * e) \<le> (w + 4 * e * n) * n'"
    using n'lo w npos e by (intro mult_left_mono) simp_all
  moreover have "(w + 4 * e * n) * (n - n * e) = P - A + 4 * B - 4 * C"
    by (simp add: P_def A_def B_def C_def algebra_simps)
  ultimately have u2: "P - A + 4 * B - 4 * C \<le> (w + 4 * e * n) * n'" by simp
  have "w' * n \<le> (w + 4 * e * n) * n'" using u1 u2 AB A0 CB by linarith
  then have "w' / n' \<le> (w + 4 * e * n) / n"
    using npos n'pos by (simp add: field_simps)
  then have up: "w' / n' \<le> w / n + 4 * e" using npos by (simp add: add_divide_distrib)
  \<comment> \<open>lower bound\<close>
  have "(w - w * e) * n \<le> w' * n" using w'lo npos by (intro mult_right_mono) simp_all
  moreover have "(w - w * e) * n = P - A" by (simp add: P_def A_def algebra_simps)
  ultimately have l1: "P - A \<le> w' * n" by simp
  have "(w - 4 * e * n) * n' \<le> w' * n"
  proof (cases "0 \<le> w - 4 * e * n")
    case True
    then have "(w - 4 * e * n) * n' \<le> (w - 4 * e * n) * (n + n * e)"
      using n'hi by (intro mult_left_mono) simp_all
    moreover have "(w - 4 * e * n) * (n + n * e) = P + A - 4 * B - 4 * C"
      by (simp add: P_def A_def B_def C_def algebra_simps)
    ultimately show ?thesis using l1 AB A0 C0 by linarith
  next
    case False
    then have "(w - 4 * e * n) * n' \<le> 0" using n'pos by (simp add: mult_le_0_iff)
    moreover have "0 \<le> w' * n" using w'0 npos by simp
    ultimately show ?thesis by linarith
  qed
  then have "(w - 4 * e * n) / n \<le> w' / n'"
    using npos n'pos by (simp add: field_simps)
  then have lo: "w / n - 4 * e \<le> w' / n'" using npos by (simp add: diff_divide_distrib)
  from up lo show ?thesis by linarith
qed

lemma quotient_perturb:
  fixes w n w' n' :: rat
  assumes "0 \<le> w" "w \<le> n" "1 \<le> n"
    and "\<bar>w' - w\<bar> \<le> w / 2 ^ 53" and "\<bar>n' - n\<bar> \<le> n / 2 ^ 53"
  shows "\<bar>w' / n' - w / n\<bar> \<le> 1 / 2 ^ 51"
  using quotient_perturb_gen [of w n "1 / 2 ^ 53" w' n'] assms by simp

lemma round64_int_err:
  assumes "0 \<le> k"
  shows "\<bar>round64 (of_int k) - of_int k\<bar> \<le> of_int k / 2 ^ 53"
proof (cases "k = 0")
  case True
  then show ?thesis by simp
next
  case False
  with assms have "1 \<le> k" by simp
  then have "(1::rat) \<le> of_int k" by (simp only: of_int_1_le_iff)
  then show ?thesis by (rule round64_rel_err)
qed

lemma frac_wrong_near:
  assumes "0 < length actual"
  shows "\<bar>frac_wrong predicted actual
          - of_int (wrong predicted actual) / of_int (int (length actual))\<bar>
         \<le> 1 / 2 ^ 51 + 1 / 2 ^ 54"
proof -
  let ?w = "of_int (wrong predicted actual) :: rat"
  let ?n = "of_int (int (length actual)) :: rat"
  note wr = wrong_range [of predicted actual]
  have w0: "0 \<le> ?w" using wr by simp
  have wn: "?w \<le> ?n" using wr by (simp only: of_int_le_iff)
  have "1 \<le> int (length actual)" using assms by linarith
  then have n1: "1 \<le> ?n" by (simp only: of_int_1_le_iff)
  have ew: "\<bar>round64 ?w - ?w\<bar> \<le> ?w / 2 ^ 53" using wr by (intro round64_int_err) simp
  have en: "\<bar>round64 ?n - ?n\<bar> \<le> ?n / 2 ^ 53" by (intro round64_int_err) simp
  have q: "\<bar>round64 ?w / round64 ?n - ?w / ?n\<bar> \<le> 1 / 2 ^ 51"
    using w0 wn n1 ew en by (rule quotient_perturb)
  note a = frac_wrong_arg(1,2) [OF assms, where predicted = predicted]
  have r: "\<bar>round64 (round64 ?w / round64 ?n) - round64 ?w / round64 ?n\<bar> \<le> 1 / 2 ^ 54"
    using a by (rule round64_err_unit)
  show ?thesis unfolding frac_wrong_def using q r by linarith
qed

lemma frac_wrong_close:
  assumes "0 < length actual"
  shows "\<bar>frac_wrong predicted actual
          - of_int (wrong predicted actual) / of_int (int (length actual))\<bar> \<le> 1 / 2 ^ 50"
  using frac_wrong_near [OF assms, of predicted] by simp

lemma accuracy_close:
  assumes "0 < length actual"
  shows "\<bar>round64 (1 - frac_wrong predicted actual)
          - (1 - of_int (wrong predicted actual) / of_int (int (length actual)))\<bar> \<le> 1 / 2 ^ 50"
proof -
  let ?q = "of_int (wrong predicted actual) / of_int (int (length actual)) :: rat"
  let ?f = "frac_wrong predicted actual"
  have f: "\<bar>?f - ?q\<bar> \<le> 1 / 2 ^ 51 + 1 / 2 ^ 54"
    using assms by (rule frac_wrong_near)
  note u = frac_wrong_unit [OF assms, where predicted = predicted]
  have s: "\<bar>round64 (1 - ?f) - (1 - ?f)\<bar> \<le> 1 / 2 ^ 54"
    using u by (intro round64_err_unit) simp_all
  have "\<bar>round64 (1 - ?f) - (1 - ?q)\<bar> \<le> 1 / 2 ^ 51 + 1 / 2 ^ 54 + 1 / 2 ^ 54"
    using f s by linarith
  then show ?thesis by simp
qed

lemma accuracy_sum:
  assumes "0 < length actual"
  shows "\<bar>round64 (1 - frac_wrong predicted actual) + frac_wrong predicted actual - 1\<bar> \<le> 1 / 2 ^ 54"
proof -
  note u = frac_wrong_unit [OF assms, where predicted = predicted]
  have "\<bar>round64 (1 - frac_wrong predicted actual) - (1 - frac_wrong predicted actual)\<bar> \<le> 1 / 2 ^ 54"
    using u by (intro round64_err_unit) simp_all
  then show ?thesis by (simp add: algebra_simps)
qed

lemma confusion_right:
  assumes "length predicted = length actual" "binary predicted" "binary actual"
  shows "confusion predicted actual ! 0 ! 0 + confusion predicted actual ! 1 ! 1
         = int (length actual) - wrong predicted actual"
    and "confusion predicted actual ! 0 ! 0 + confusion predicted actual ! 0 ! 1
         + confusion predicted actual ! 1 ! 0 + confusion predicted actual ! 1 ! 1 = int (length actual)"
proof -
  have "\<forall>i \<in> set [0..<length actual].
          (predicted ! i = 0 \<or> predicted ! i = 1) \<and> (actual ! i = 0 \<or> actual ! i = 1)"
    using assms by (simp add: binary_nth)
  from cell_count_total [OF this]
  show "confusion predicted actual ! 0 ! 0 + confusion predicted actual ! 1 ! 1
         = int (length actual) - wrong predicted actual"
    and "confusion predicted actual ! 0 ! 0 + confusion predicted actual ! 0 ! 1
         + confusion predicted actual ! 1 ! 0 + confusion predicted actual ! 1 ! 1 = int (length actual)"
    by (simp_all add: confusion_def wrong_def Let_def)
qed

lemma spec_counts_confusion:
  assumes "length predicted = length actual" "binary predicted" "binary actual"
  shows "spec_counts predicted actual = confusion predicted actual"
proof -
  have "\<forall>i \<in> set [0..<length actual].
          (predicted ! i = 0 \<or> predicted ! i = 1) \<and> (actual ! i = 0 \<or> actual ! i = 1)"
    using assms by (simp add: binary_nth)
  then show ?thesis by (simp add: spec_counts_def spec_count_loop_cells confusion_def Let_def)
qed

lemma count_if_take:
  "i < n \<Longrightarrow> count_if (take n bquark) truth i p a N = count_if bquark truth i p a N"
  by (simp add: count_if_def test_cell_def list_getitem_def)

lemma evaluate_body_take:
  "i < n \<Longrightarrow> evaluate_body (take n bquark) truth i N = evaluate_body bquark truth i N"
  by (simp only: evaluate_body_def count_if_take)

lemma evaluate_loop_take:
  "\<forall>i \<in> set idx. i < n \<Longrightarrow>
   evaluate_loop (take n bquark) truth idx N = evaluate_loop bquark truth idx N"
  by (induction idx arbitrary: N) (simp_all add: evaluate_body_take split: sum.splits)

lemma evaluate_Inr_counts:
  assumes "length (isb data) \<le> length bquark"
    and "evaluate data bquark = Inr (N, accuracy, fracWrong)"
  shows "N = confusion bquark (isb data)"
  using assms(2) unfolding evaluate_def evaluate_loop_confusion [OF assms(1)]
  by (auto simp add: Let_def split: sum.splits)

lemma wrong_agree: "wrong xs xs = 0"
  using cell_count_agree [of "[0..<length xs]" xs xs] by (simp add: wrong_def)

lemma wrong_disagree:
  assumes "length predicted = length actual" "binary predicted" "binary actual"
    and "\<forall>i < length actual. predicted ! i \<noteq> actual ! i"
  shows "wrong predicted actual = int (length actual)"
proof -
  let ?idx = "[0..<length actual]"
  have b: "\<forall>i \<in> set ?idx.
          (predicted ! i = 0 \<or> predicted ! i = 1) \<and> (actual ! i = 0 \<or> actual ! i = 1)"
    using assms(1-3) by (simp add: binary_nth)
  have d: "\<forall>i \<in> set ?idx. predicted ! i \<noteq> actual ! i" using assms(4) by simp
  from cell_count_total [OF b] cell_count_disagree [OF d]
  show ?thesis by (simp add: wrong_def)
qed

lemma confusion_ex3: "confusion [0, 0, 1] [0, 0, 0] = [[2, 0], [1, 0]]"
  by (simp add: confusion_def cell_count_def)

lemma wrong_ex3: "wrong [0, 0, 1] [0, 0, 0] = 1"
  by (simp add: wrong_def cell_count_def)

section \<open>The store\<close>

lemma only_at_refl [simp]: "only_at A s s"
  by (simp add: only_at_def)

lemma only_at_trans: "only_at A s s' \<Longrightarrow> only_at A s' s'' \<Longrightarrow> only_at A s s''"
  by (simp add: only_at_def)

lemma only_at_heap: "only_at A s s' \<Longrightarrow> a \<notin> A \<Longrightarrow> heap s' a = heap s a"
  by (simp add: only_at_def)

lemma incr_store_only:
  assumes "incr_store s n p a = Inr s'" "heap s n = Some (RefList rows)"
  shows "only_at (set rows) s s'"
  using assms
  by (auto simp add: incr_store_def read_refs_def read_ints_def list_getitem_def only_at_def
      split: sum.splits option.splits pyobj.splits if_splits)

lemma count_if_store_only:
  assumes "heap s n = Some (RefList rows)"
  shows "only_at (set rows) s (snd (count_if_store s b n i p a))"
  using incr_store_only [OF _ assms]
  by (auto simp add: count_if_store_def split: sum.splits)

lemma evaluate_body_store_only:
  assumes "heap s n = Some (RefList rows)" "n \<notin> set rows"
  shows "only_at (set rows) s (snd (evaluate_body_store s b n i))"
proof -
  let ?c1 = "count_if_store s b n i 0 0"
  let ?c2 = "count_if_store (snd ?c1) b n i 0 1"
  let ?c3 = "count_if_store (snd ?c2) b n i 1 0"
  let ?c4 = "count_if_store (snd ?c3) b n i 1 1"
  have o1: "only_at (set rows) s (snd ?c1)" using assms(1) by (rule count_if_store_only)
  then have h1: "heap (snd ?c1) n = Some (RefList rows)"
    using assms by (simp add: only_at_heap)
  have o2: "only_at (set rows) (snd ?c1) (snd ?c2)" using h1 by (rule count_if_store_only)
  then have h2: "heap (snd ?c2) n = Some (RefList rows)"
    using h1 assms(2) by (simp add: only_at_heap)
  have o3: "only_at (set rows) (snd ?c2) (snd ?c3)" using h2 by (rule count_if_store_only)
  then have h3: "heap (snd ?c3) n = Some (RefList rows)"
    using h2 assms(2) by (simp add: only_at_heap)
  have o4: "only_at (set rows) (snd ?c3) (snd ?c4)" using h3 by (rule count_if_store_only)
  note t2 = only_at_trans [OF o1 o2]
  note t3 = only_at_trans [OF t2 o3]
  note t4 = only_at_trans [OF t3 o4]
  have "snd (evaluate_body_store s b n i) \<in> {snd ?c1, snd ?c2, snd ?c3, snd ?c4}"
    by (auto simp add: evaluate_body_store_def split: prod.splits sum.splits)
  with o1 t2 t3 t4 show ?thesis by auto
qed

lemma evaluate_loop_store_only:
  assumes "heap s n = Some (RefList rows)" "n \<notin> set rows"
  shows "only_at (set rows) s (snd (evaluate_loop_store s b n idx))"
  using assms(1)
proof (induction idx arbitrary: s)
  case Nil
  show ?case by simp
next
  case (Cons i idx)
  let ?s1 = "snd (evaluate_body_store s b n i)"
  have o1: "only_at (set rows) s ?s1" using Cons.prems assms(2) by (rule evaluate_body_store_only)
  then have h1: "heap ?s1 n = Some (RefList rows)"
    using Cons.prems assms(2) by (simp add: only_at_heap)
  have o2: "only_at (set rows) ?s1 (snd (evaluate_loop_store ?s1 b n idx))"
    using h1 by (rule Cons.IH)
  have "snd (evaluate_loop_store s b n (i # idx)) \<in> {?s1, snd (evaluate_loop_store ?s1 b n idx)}"
    by (auto split: prod.splits sum.splits)
  with o1 only_at_trans [OF o1 o2] show ?case by auto
qed


lemma evaluate_store_state:
  "snd (evaluate_store s b) =
     (case read_column (with_table s) ''isb'' of
        Inl e \<Rightarrow> with_table s
      | Inr truth \<Rightarrow>
          snd (evaluate_loop_store (with_table s) b (Suc (Suc (fresh s))) [0..<length truth]))"
  by (simp add: evaluate_store_def alloc_def with_table_def Let_def
      split: prod.splits sum.splits)

lemma evaluate_store_only:
  "only_at {fresh s, Suc (fresh s)} (with_table s) (snd (evaluate_store s b))"
proof (cases "read_column (with_table s) ''isb''")
  case (Inl e)
  then show ?thesis by (simp add: evaluate_store_state)
next
  case (Inr truth)
  have h: "heap (with_table s) (Suc (Suc (fresh s))) = Some (RefList [fresh s, Suc (fresh s)])"
    by (simp add: with_table_def)
  have "only_at (set [fresh s, Suc (fresh s)]) (with_table s)
          (snd (evaluate_loop_store (with_table s) b (Suc (Suc (fresh s))) [0..<length truth]))"
    using h by (rule evaluate_loop_store_only) simp
  then show ?thesis by (simp add: evaluate_store_state Inr)
qed

lemma evaluate_store_frame:
  "(\<forall>a < fresh s. heap (snd (evaluate_store s b)) a = heap s a)
   \<and> columns (snd (evaluate_store s b)) = columns s
   \<and> printed (snd (evaluate_store s b)) = printed s"
proof -
  note o = evaluate_store_only [of s b]
  have "heap (snd (evaluate_store s b)) a = heap s a" if "a < fresh s" for a
  proof -
    from that have "a \<notin> {fresh s, Suc (fresh s)}" by simp
    with o have "heap (snd (evaluate_store s b)) a = heap (with_table s) a"
      by (rule only_at_heap)
    also have "\<dots> = heap s a" using that by (simp add: with_table_def)
    finally show ?thesis .
  qed
  moreover from o have "columns (snd (evaluate_store s b)) = columns s"
    "printed (snd (evaluate_store s b)) = printed s"
    by (simp_all add: only_at_def with_table_def)
  ultimately show ?thesis by simp
qed

lemma test_cell_store_sim:
  assumes "table_inv s b c bquark truth n r0 r1 N"
  shows "test_cell_store s b i p a = test_cell bquark truth i p a"
proof -
  from assms have "read_ints s b = Inr bquark" "read_column s ''isb'' = Inr truth"
    by (simp_all add: table_inv_def read_ints_def read_column_def)
  then show ?thesis
    by (simp add: test_cell_store_def test_cell_def split: sum.splits)
qed

lemma incr_store_sim:
  assumes "table_inv s b c bquark truth n r0 r1 N" "p < 2" "a < 2"
  shows "\<exists>s'. incr_store s n p a = Inr s' \<and> table_inv s' b c bquark truth n r0 r1 (incr N p a)"
proof -
  from assms(2) consider "p = 0" | "p = 1" by linarith
  then show ?thesis
  proof cases
    case 1
    with assms(1,3) show ?thesis
      by (simp add: table_inv_def incr_store_def read_refs_def read_ints_def list_getitem_def incr_def)
  next
    case 2
    with assms(1,3) show ?thesis
      by (simp add: table_inv_def incr_store_def read_refs_def read_ints_def list_getitem_def incr_def)
  qed
qed

lemma count_if_store_sim:
  assumes "table_inv s b c bquark truth n r0 r1 N" "p < 2" "a < 2"
  shows "case count_if bquark truth i p a N of
           Inl e \<Rightarrow> count_if_store s b n i p a = (Inl e, s)
         | Inr N' \<Rightarrow> \<exists>s'. count_if_store s b n i p a = (Inr (), s')
                          \<and> table_inv s' b c bquark truth n r0 r1 N'"
proof (cases "test_cell bquark truth i (int p) (int a)")
  case (Inl e)
  then show ?thesis
    by (simp add: count_if_def count_if_store_def test_cell_store_sim [OF assms(1)])
next
  case (Inr t)
  show ?thesis
  proof (cases t)
    case True
    from incr_store_sim [OF assms] obtain s' where
      "incr_store s n p a = Inr s'" "table_inv s' b c bquark truth n r0 r1 (incr N p a)" by blast
    with Inr True show ?thesis
      by (simp add: count_if_def count_if_store_def test_cell_store_sim [OF assms(1)])
  next
    case False
    with Inr assms(1) show ?thesis
      by (simp add: count_if_def count_if_store_def test_cell_store_sim [OF assms(1)])
  qed
qed

lemma evaluate_body_store_sim:
  assumes "table_inv s b c bquark truth n r0 r1 N"
  shows "case evaluate_body bquark truth i N of
           Inl e \<Rightarrow> fst (evaluate_body_store s b n i) = Inl e
         | Inr N' \<Rightarrow> \<exists>s'. evaluate_body_store s b n i = (Inr (), s')
                          \<and> table_inv s' b c bquark truth n r0 r1 N'"
proof (cases "count_if bquark truth i 0 0 N")
  case (Inl e)
  with count_if_store_sim [OF assms, of 0 0 i] show ?thesis
    by (simp add: evaluate_body_def evaluate_body_store_def)
next
  case N1: (Inr N1)
  with count_if_store_sim [OF assms, of 0 0 i] obtain s1 where
    s1: "count_if_store s b n i 0 0 = (Inr (), s1)" "table_inv s1 b c bquark truth n r0 r1 N1"
    by auto
  show ?thesis
  proof (cases "count_if bquark truth i 0 1 N1")
    case (Inl e)
    with count_if_store_sim [OF s1(2), of 0 1 i] N1 s1(1) show ?thesis
      by (simp add: evaluate_body_def evaluate_body_store_def)
  next
    case N2: (Inr N2)
    with count_if_store_sim [OF s1(2), of 0 1 i] obtain s2 where
      s2: "count_if_store s1 b n i 0 1 = (Inr (), s2)" "table_inv s2 b c bquark truth n r0 r1 N2"
      by auto
    show ?thesis
    proof (cases "count_if bquark truth i 1 0 N2")
      case (Inl e)
      with count_if_store_sim [OF s2(2), of 1 0 i] N1 N2 s1(1) s2(1) show ?thesis
        by (simp add: evaluate_body_def evaluate_body_store_def)
    next
      case N3: (Inr N3)
      with count_if_store_sim [OF s2(2), of 1 0 i] obtain s3 where
        s3: "count_if_store s2 b n i 1 0 = (Inr (), s3)" "table_inv s3 b c bquark truth n r0 r1 N3"
        by auto
      from count_if_store_sim [OF s3(2), of 1 1 i] N1 N2 N3 s1(1) s2(1) s3(1) show ?thesis
        by (auto simp add: evaluate_body_def evaluate_body_store_def split: sum.splits)
    qed
  qed
qed

lemma evaluate_loop_store_sim:
  assumes "table_inv s b c bquark truth n r0 r1 N"
  shows "case evaluate_loop bquark truth idx N of
           Inl e \<Rightarrow> fst (evaluate_loop_store s b n idx) = Inl e
         | Inr N' \<Rightarrow> \<exists>s'. evaluate_loop_store s b n idx = (Inr (), s')
                          \<and> table_inv s' b c bquark truth n r0 r1 N'"
  using assms
proof (induction idx arbitrary: s N)
  case Nil
  then show ?case by simp
next
  case (Cons i idx)
  show ?case
  proof (cases "evaluate_body bquark truth i N")
    case (Inl e)
    with evaluate_body_store_sim [OF Cons.prems, of i] show ?thesis
      by (auto split: prod.splits sum.splits)
  next
    case (Inr N1)
    with evaluate_body_store_sim [OF Cons.prems, of i] obtain s1 where
      s1: "evaluate_body_store s b n i = (Inr (), s1)" "table_inv s1 b c bquark truth n r0 r1 N1"
      by auto
    from Cons.IH [OF s1(2)] Inr s1(1) show ?thesis
      by (simp split: sum.splits)
  qed
qed

lemma with_table_inv:
  assumes "b < fresh s" "heap s b = Some (IntList bquark)"
    and "map_of (columns s) ''isb'' = Some c" "c < fresh s" "heap s c = Some (IntList truth)"
  shows "table_inv (with_table s) b c bquark truth (Suc (Suc (fresh s))) (fresh s) (Suc (fresh s))
           [[0, 0], [0, 0]]"
  using assms by (simp add: table_inv_def with_table_def)

lemma table_inv_reads:
  assumes "table_inv s b c bquark truth n r0 r1 N"
  shows "read_column s ''isb'' = Inr truth"
    and "read_cell s n 0 1 = Inr (N ! 0 ! 1)" and "read_cell s n 1 0 = Inr (N ! 1 ! 0)"
    and "table_at s n = N"
proof -
  from assms have l: "length N = 2" by (simp add: table_inv_def)
  then have "N = [N ! 0, N ! 1]"
    by (cases N; cases "tl N") (auto simp add: numeral_2_eq_2)
  with assms show "table_at s n = N" by (simp add: table_inv_def table_at_def)
qed (use assms in \<open>simp_all add: table_inv_def read_column_def read_ints_def read_cell_def
      read_refs_def list_getitem_def\<close>)

lemma evaluate_store_report:
  assumes "sees s b bquark truth" "isb d = truth"
  shows "report (evaluate_store s b) = evaluate d bquark"
proof -
  from assms(1) obtain c where c: "map_of (columns s) ''isb'' = Some c" "c < fresh s"
    "heap s c = Some (IntList truth)" and b: "b < fresh s" "heap s b = Some (IntList bquark)"
    by (auto simp add: sees_def split: option.splits)
  let ?n = "Suc (Suc (fresh s))"
  have inv0: "table_inv (with_table s) b c bquark truth ?n (fresh s) (Suc (fresh s)) [[0, 0], [0, 0]]"
    using b c by (rule with_table_inv)
  have col0: "read_column (with_table s) ''isb'' = Inr truth" using inv0 by (rule table_inv_reads)
  have unf: "evaluate_store s b =
     (case evaluate_loop_store (with_table s) b ?n [0..<length truth] of
        (Inl e, s4) \<Rightarrow> (Inl e, s4)
      | (Inr u, s4) \<Rightarrow>
          (case read_cell s4 ?n 0 1 of
             Inl e \<Rightarrow> (Inl e, s4)
           | Inr n01 \<Rightarrow>
               (case read_cell s4 ?n 1 0 of
                  Inl e \<Rightarrow> (Inl e, s4)
                | Inr n10 \<Rightarrow>
                    (case float_of_int (n01 + n10) of
                       Inl e \<Rightarrow> (Inl e, s4)
                     | Inr num \<Rightarrow>
                         (case read_column s4 ''isb'' of
                            Inl e \<Rightarrow> (Inl e, s4)
                          | Inr truth' \<Rightarrow>
                              (case float_of_int (int (length truth')) of
                                 Inl e \<Rightarrow> (Inl e, s4)
                               | Inr den \<Rightarrow>
                                   (case float_truediv num den of
                                      Inl e \<Rightarrow> (Inl e, s4)
                                    | Inr fracWrong \<Rightarrow>
                                        let accuracy = float_sub (Finite 1) fracWrong
                                        in (Inr (?n, accuracy, fracWrong), s4))))))))"
    using col0 [unfolded with_table_def]
    by (simp add: evaluate_store_def alloc_def with_table_def Let_def
        split: prod.splits sum.splits)
  show ?thesis
  proof (cases "evaluate_loop bquark truth [0..<length truth] [[0, 0], [0, 0]]")
    case (Inl e)
    with evaluate_loop_store_sim [OF inv0, of "[0..<length truth]"]
    have "fst (evaluate_loop_store (with_table s) b ?n [0..<length truth]) = Inl e" by simp
    then have "fst (evaluate_store s b) = Inl e"
      unfolding unf by (auto split: prod.splits sum.splits)
    then show ?thesis using Inl assms(2) by (simp add: report_def evaluate_def)
  next
    case (Inr N)
    with evaluate_loop_store_sim [OF inv0, of "[0..<length truth]"] obtain s4 where
      s4: "evaluate_loop_store (with_table s) b ?n [0..<length truth] = (Inr (), s4)"
        "table_inv s4 b c bquark truth ?n (fresh s) (Suc (fresh s)) N"
      by auto
    note r = table_inv_reads [OF s4(2)]
    have "evaluate_store s b =
       (case float_of_int (N ! 0 ! 1 + N ! 1 ! 0) of
          Inl e \<Rightarrow> (Inl e, s4)
        | Inr num \<Rightarrow>
            (case float_of_int (int (length truth)) of
               Inl e \<Rightarrow> (Inl e, s4)
             | Inr den \<Rightarrow>
                 (case float_truediv num den of
                    Inl e \<Rightarrow> (Inl e, s4)
                  | Inr fracWrong \<Rightarrow>
                      let accuracy = float_sub (Finite 1) fracWrong
                      in (Inr (?n, accuracy, fracWrong), s4))))"
      unfolding unf s4(1) prod.case sum.case r(1-3) by (rule refl)
    then show ?thesis
      using Inr assms(2)
      by (simp add: r(4) report_def evaluate_def Let_def split: sum.splits)
  qed
qed

section \<open>The claims\<close>

text \<open>
  Claim C1. For predicted and actual label sequences of equal length \<open>N > 0\<close> that hold
  only \<open>0\<close> and \<open>1\<close> (and are no longer than a Python sequence can be), \<open>evaluate\<close>
  returns a report. Its table of counts is the one obtained by incrementing, for each
  index \<open>i\<close> in \<open>[0, N)\<close>, the count at \<open>(predicted[i], actual[i])\<close>. Its fraction wrong is
  the float quotient of \<open>float(count[0][1] + count[1][0])\<close> by \<open>float(N)\<close>, which lies
  within \<open>2^-50\<close> of the exact quotient \<open>(count[0][1] + count[1][0]) / N\<close>. For
  predicted \<open>[0,0,1,1]\<close> and actual \<open>[0,1,0,1]\<close> the counts are \<open>1, 1, 1, 1\<close>, the
  fraction wrong is \<open>0.5\<close> and the accuracy is \<open>0.5\<close>.
\<close>

theorem evaluate_counts_and_fraction_wrong:
  "(length bquark = length (isb data) \<and> binary bquark \<and> binary (isb data)
      \<and> 0 < length (isb data) \<and> length (isb data) \<le> py_maxsize \<longrightarrow>
    (\<exists>N accuracy fracWrong num den.
        evaluate data bquark = Inr (N, accuracy, fracWrong)
      \<and> N = spec_counts bquark (isb data)
      \<and> float_of_int (N ! 0 ! 1 + N ! 1 ! 0) = Inr num
      \<and> float_of_int (int (length (isb data))) = Inr den
      \<and> float_truediv num den = Inr fracWrong
      \<and> \<bar>float_val fracWrong
           - of_int (N ! 0 ! 1 + N ! 1 ! 0) / of_int (int (length (isb data)))\<bar> \<le> 1 / 2 ^ 50))
   \<and> evaluate (data\<lparr>isb := [0, 1, 0, 1]\<rparr>) [0, 0, 1, 1]
       = Inr ([[1, 1], [1, 1]], Finite (1 / 2), Finite (1 / 2))"
proof (intro conjI impI)
  assume h: "length bquark = length (isb data) \<and> binary bquark \<and> binary (isb data)
      \<and> 0 < length (isb data) \<and> length (isb data) \<le> py_maxsize"
  let ?n = "int (length (isb data))"
  let ?w = "wrong bquark (isb data)"
  from h have len: "length (isb data) \<le> length bquark" and pos: "0 < length (isb data)"
    and mx: "length (isb data) \<le> py_maxsize" by simp_all
  have n63: "?n \<le> 2 ^ 63" using mx by (simp add: py_maxsize_def)
  note wr = wrong_range [of bquark "isb data"]
  have ev: "evaluate data bquark = Inr (confusion bquark (isb data),
              Finite (round64 (1 - frac_wrong bquark (isb data))), Finite (frac_wrong bquark (isb data)))"
    using len pos mx by (rule evaluate_returns)
  have sc: "confusion bquark (isb data) = spec_counts bquark (isb data)"
    using h by (simp add: spec_counts_confusion)
  have fw: "float_of_int (confusion bquark (isb data) ! 0 ! 1 + confusion bquark (isb data) ! 1 ! 0)
            = Inr (Finite (round64 (of_int ?w)))"
    unfolding confusion_wrong using wr n63 by (intro float_of_int_range) simp_all
  have fn: "float_of_int ?n = Inr (Finite (round64 (of_int ?n)))"
    using n63 by (intro float_of_int_range) simp_all
  note a = frac_wrong_arg(1,2) [OF pos, where predicted = bquark]
  have nz: "round64 (of_int ?n) \<noteq> 0" using frac_wrong_arg(3) [OF pos] by simp
  have dv: "float_truediv (Finite (round64 (of_int ?w))) (Finite (round64 (of_int ?n)))
            = Inr (Finite (frac_wrong bquark (isb data)))"
    using nz a by (simp add: float_round_unit frac_wrong_def)
  have cl: "\<bar>float_val (Finite (frac_wrong bquark (isb data)))
             - of_int (confusion bquark (isb data) ! 0 ! 1 + confusion bquark (isb data) ! 1 ! 0)
               / of_int ?n\<bar> \<le> 1 / 2 ^ 50"
    unfolding confusion_wrong using frac_wrong_close [OF pos, of bquark] by simp
  from ev sc fw fn dv cl
  show "\<exists>N accuracy fracWrong num den.
        evaluate data bquark = Inr (N, accuracy, fracWrong)
      \<and> N = spec_counts bquark (isb data)
      \<and> float_of_int (N ! 0 ! 1 + N ! 1 ! 0) = Inr num
      \<and> float_of_int (int (length (isb data))) = Inr den
      \<and> float_truediv num den = Inr fracWrong
      \<and> \<bar>float_val fracWrong
           - of_int (N ! 0 ! 1 + N ! 1 ! 0) / of_int (int (length (isb data)))\<bar> \<le> 1 / 2 ^ 50"
    by (intro exI [of _ "confusion bquark (isb data)"]
          exI [of _ "Finite (round64 (1 - frac_wrong bquark (isb data)))"]
          exI [of _ "Finite (frac_wrong bquark (isb data))"]
          exI [of _ "Finite (round64 (of_int ?w))"]
          exI [of _ "Finite (round64 (of_int ?n))"]) simp
next
  show "evaluate (data\<lparr>isb := [0, 1, 0, 1]\<rparr>) [0, 0, 1, 1]
       = Inr ([[1, 1], [1, 1]], Finite (1 / 2), Finite (1 / 2))"
    using evaluate_returns [of "data\<lparr>isb := [0, 1, 0, 1]\<rparr>" "[0, 0, 1, 1]"]
    by (simp add: py_maxsize_def confusion_ex1 frac_wrong_def wrong_ex1)
qed

theorem evaluate_counts_and_fraction_wrong_witness:
  "length [1, 1, 0 :: int] = length (isb \<lparr>prob_b = [], isb = [1, 0, 1], nnbjet = []\<rparr>)
   \<and> binary [1, 1, 0] \<and> binary (isb \<lparr>prob_b = [], isb = [1, 0, 1], nnbjet = []\<rparr>)
   \<and> 0 < length (isb \<lparr>prob_b = [], isb = [1, 0, 1], nnbjet = []\<rparr>)
   \<and> length (isb \<lparr>prob_b = [], isb = [1, 0, 1], nnbjet = []\<rparr>) \<le> py_maxsize
   \<and> (\<exists>N accuracy fracWrong.
        evaluate \<lparr>prob_b = [], isb = [1, 0, 1], nnbjet = []\<rparr> [1, 1, 0] = Inr (N, accuracy, fracWrong)
        \<and> N = spec_counts [1, 1, 0] [1, 0, 1])"
proof -
  let ?d = "\<lparr>prob_b = [], isb = [1, 0, 1], nnbjet = []\<rparr>"
  have h: "length [1, 1, 0 :: int] = length (isb ?d) \<and> binary [1, 1, 0] \<and> binary (isb ?d)
           \<and> 0 < length (isb ?d) \<and> length (isb ?d) \<le> py_maxsize"
    by (simp add: binary_def py_maxsize_def)
  from evaluate_counts_and_fraction_wrong [of "[1, 1, 0]" ?d] h
  have "\<exists>N accuracy fracWrong.
        evaluate ?d [1, 1, 0] = Inr (N, accuracy, fracWrong) \<and> N = spec_counts [1, 1, 0] (isb ?d)"
    by blast
  with h show ?thesis by simp
qed

text \<open>
  Claim C2. For predicted and actual label sequences of equal length \<open>N\<close> that hold only
  \<open>0\<close> and \<open>1\<close>, the counting loop of \<open>evaluate\<close> ends with a table whose four counts
  sum to \<open>N\<close> (also for \<open>N = 0\<close>); every report that \<open>evaluate\<close> returns carries that
  table, and for \<open>0 < N\<close> (and \<open>N\<close> no longer than a Python sequence can be) a report is
  returned.
\<close>

theorem counts_sum_to_length:
  assumes "length bquark = length (isb data)" "binary bquark" "binary (isb data)"
  shows "\<exists>N. evaluate_loop bquark (isb data) [0..<length (isb data)] [[0, 0], [0, 0]] = Inr N
           \<and> N ! 0 ! 0 + N ! 0 ! 1 + N ! 1 ! 0 + N ! 1 ! 1 = int (length (isb data))
           \<and> (\<forall>N' accuracy fracWrong.
                 evaluate data bquark = Inr (N', accuracy, fracWrong) \<longrightarrow> N' = N)
           \<and> (0 < length (isb data) \<and> length (isb data) \<le> py_maxsize \<longrightarrow>
                 (\<exists>accuracy fracWrong. evaluate data bquark = Inr (N, accuracy, fracWrong)))"
proof (intro exI [of _ "confusion bquark (isb data)"] conjI allI impI)
  from assms(1) have len: "length (isb data) \<le> length bquark" by simp
  show "evaluate_loop bquark (isb data) [0..<length (isb data)] [[0, 0], [0, 0]]
        = Inr (confusion bquark (isb data))"
    using len by (rule evaluate_loop_confusion)
  show "confusion bquark (isb data) ! 0 ! 0 + confusion bquark (isb data) ! 0 ! 1
        + confusion bquark (isb data) ! 1 ! 0 + confusion bquark (isb data) ! 1 ! 1
        = int (length (isb data))"
    using assms by (rule confusion_right(2))
  show "N' = confusion bquark (isb data)"
    if "evaluate data bquark = Inr (N', accuracy, fracWrong)" for N' accuracy fracWrong
    using len that by (rule evaluate_Inr_counts)
  show "\<exists>accuracy fracWrong.
          evaluate data bquark = Inr (confusion bquark (isb data), accuracy, fracWrong)"
    if "0 < length (isb data) \<and> length (isb data) \<le> py_maxsize"
    using evaluate_returns [OF len] that by simp
qed

theorem counts_sum_to_length_witness:
  "length [0, 1, 1 :: int] = length (isb \<lparr>prob_b = [], isb = [1, 1, 0], nnbjet = []\<rparr>)
   \<and> binary [0, 1, 1] \<and> binary (isb \<lparr>prob_b = [], isb = [1, 1, 0], nnbjet = []\<rparr>)
   \<and> (\<exists>N. evaluate_loop [0, 1, 1] [1, 1, 0] [0..<3] [[0, 0], [0, 0]] = Inr N
          \<and> N ! 0 ! 0 + N ! 0 ! 1 + N ! 1 ! 0 + N ! 1 ! 1 = 3)"
proof -
  let ?d = "\<lparr>prob_b = [], isb = [1, 1, 0], nnbjet = []\<rparr>"
  have h: "length [0, 1, 1 :: int] = length (isb ?d)" "binary [0, 1, 1]" "binary (isb ?d)"
    by (simp_all add: binary_def)
  from counts_sum_to_length [OF h]
  have "\<exists>N. evaluate_loop [0, 1, 1] (isb ?d) [0..<length (isb ?d)] [[0, 0], [0, 0]] = Inr N
          \<and> N ! 0 ! 0 + N ! 0 ! 1 + N ! 1 ! 0 + N ! 1 ! 1 = int (length (isb ?d))"
    by blast
  then have "\<exists>N. evaluate_loop [0, 1, 1] [1, 1, 0] [0..<3] [[0, 0], [0, 0]] = Inr N
          \<and> N ! 0 ! 0 + N ! 0 ! 1 + N ! 1 ! 0 + N ! 1 ! 1 = 3"
    by (simp add: numeral_3_eq_3)
  with h show ?thesis by simp
qed

text \<open>
  Claim C3, as amended. For predicted and actual label sequences of equal length
  \<open>N > 0\<close> that hold only \<open>0\<close> and \<open>1\<close> (and are no longer than a Python sequence can
  be), \<open>evaluate\<close> returns finite floats \<open>accuracy\<close> and \<open>fracWrong\<close> with
  \<open>accuracy = 1.0 - fracWrong\<close> as a float subtraction; as real numbers,
  \<open>accuracy + fracWrong\<close> is within \<open>2^-54\<close> of \<open>1\<close>, and \<open>accuracy\<close> is within \<open>2^-50\<close>
  of \<open>(N00 + N11) / N\<close>. The last two are not equalities: see the counterexample below.
\<close>

theorem accuracy_complements_fraction_wrong:
  assumes "length bquark = length (isb data)" "binary bquark" "binary (isb data)"
    and "0 < length (isb data)" "length (isb data) \<le> py_maxsize"
  shows "\<exists>N a f. evaluate data bquark = Inr (N, Finite a, Finite f)
           \<and> Finite a = float_sub (Finite 1) (Finite f)
           \<and> \<bar>a + f - 1\<bar> \<le> 1 / 2 ^ 54
           \<and> \<bar>a - of_int (N ! 0 ! 0 + N ! 1 ! 1) / of_int (int (length (isb data)))\<bar> \<le> 1 / 2 ^ 50"
proof -
  let ?N = "confusion bquark (isb data)"
  let ?f = "frac_wrong bquark (isb data)"
  let ?n = "of_int (int (length (isb data))) :: rat"
  have len: "length (isb data) \<le> length bquark" using assms(1) by simp
  have ev: "evaluate data bquark = Inr (?N, Finite (round64 (1 - ?f)), Finite ?f)"
    using len assms(4,5) by (rule evaluate_returns)
  note u = frac_wrong_unit [OF assms(4), where predicted = bquark]
  have sb: "Finite (round64 (1 - ?f)) = float_sub (Finite 1) (Finite ?f)"
    using u by (simp add: float_round_unit)
  have sm: "\<bar>round64 (1 - ?f) + ?f - 1\<bar> \<le> 1 / 2 ^ 54"
    using assms(4) by (rule accuracy_sum)
  have n0: "?n \<noteq> 0" using assms(4) by simp
  have "of_int (?N ! 0 ! 0 + ?N ! 1 ! 1) / ?n
        = of_int (int (length (isb data)) - wrong bquark (isb data)) / ?n"
    by (simp only: confusion_right(1) [OF assms(1-3)])
  also have "\<dots> = (?n - of_int (wrong bquark (isb data))) / ?n"
    by (simp only: of_int_diff)
  also have "\<dots> = 1 - of_int (wrong bquark (isb data)) / ?n"
    using n0 by (simp add: diff_divide_distrib)
  finally have rt: "of_int (?N ! 0 ! 0 + ?N ! 1 ! 1) / ?n
        = 1 - of_int (wrong bquark (isb data)) / ?n" .
  have cl: "\<bar>round64 (1 - ?f) - of_int (?N ! 0 ! 0 + ?N ! 1 ! 1) / ?n\<bar> \<le> 1 / 2 ^ 50"
    unfolding rt using assms(4) by (rule accuracy_close)
  from ev sb sm cl show ?thesis by blast
qed

theorem accuracy_complements_fraction_wrong_witness:
  "length [0, 0, 1 :: int] = length (isb \<lparr>prob_b = [], isb = [0, 0, 0], nnbjet = []\<rparr>)
   \<and> binary [0, 0, 1] \<and> binary (isb \<lparr>prob_b = [], isb = [0, 0, 0], nnbjet = []\<rparr>)
   \<and> 0 < length (isb \<lparr>prob_b = [], isb = [0, 0, 0], nnbjet = []\<rparr>)
   \<and> length (isb \<lparr>prob_b = [], isb = [0, 0, 0], nnbjet = []\<rparr>) \<le> py_maxsize
   \<and> (\<exists>N a f. evaluate \<lparr>prob_b = [], isb = [0, 0, 0], nnbjet = []\<rparr> [0, 0, 1] = Inr (N, Finite a, Finite f)
           \<and> \<bar>a + f - 1\<bar> \<le> 1 / 2 ^ 54
           \<and> \<bar>a - of_int (N ! 0 ! 0 + N ! 1 ! 1) / 3\<bar> \<le> 1 / 2 ^ 50)"
proof -
  let ?d = "\<lparr>prob_b = [], isb = [0, 0, 0], nnbjet = []\<rparr>"
  have h: "length [0, 0, 1 :: int] = length (isb ?d)" "binary [0, 0, 1]" "binary (isb ?d)"
    "0 < length (isb ?d)" "length (isb ?d) \<le> py_maxsize"
    by (simp_all add: binary_def py_maxsize_def)
  from accuracy_complements_fraction_wrong [OF h]
  obtain N a f where "evaluate ?d [0, 0, 1] = Inr (N, Finite a, Finite f)"
    "\<bar>a + f - 1\<bar> \<le> 1 / 2 ^ 54"
    "\<bar>a - of_int (N ! 0 ! 0 + N ! 1 ! 1) / of_int (int (length (isb ?d)))\<bar> \<le> 1 / 2 ^ 50"
    by blast
  then have "\<exists>N a f. evaluate ?d [0, 0, 1] = Inr (N, Finite a, Finite f)
           \<and> \<bar>a + f - 1\<bar> \<le> 1 / 2 ^ 54
           \<and> \<bar>a - of_int (N ! 0 ! 0 + N ! 1 ! 1) / 3\<bar> \<le> 1 / 2 ^ 50"
    by (intro exI [of _ N] exI [of _ a] exI [of _ f]) simp
  with h show ?thesis by blast
qed

text \<open>
  The counterexample to the equalities of claim C3: for predicted \<open>[0,0,1]\<close> and
  actual \<open>[0,0,0]\<close> the accuracy returned is \<open>6004799503160662 / 2^53\<close> (Python prints
  \<open>0.6666666666666667\<close>), while the float quotient \<open>float(N00 + N11) / float(N)\<close> is
  \<open>6004799503160661 / 2^53\<close> (\<open>0.6666666666666666\<close>) and the exact quotient is \<open>2/3\<close>.
\<close>

theorem accuracy_not_exact_counterexample:
  "evaluate \<lparr>prob_b = [], isb = [0, 0, 0], nnbjet = []\<rparr> [0, 0, 1]
     = Inr ([[2, 0], [1, 0]],
            Finite (6004799503160662 / 9007199254740992),
            Finite (6004799503160661 / 18014398509481984))
   \<and> float_of_int (2 + 0) = Inr (Finite 2)
   \<and> float_of_int (int (length [0, 0, 0 :: int])) = Inr (Finite 3)
   \<and> float_truediv (Finite 2) (Finite 3) = Inr (Finite (6004799503160661 / 9007199254740992))
   \<and> Finite (6004799503160662 / 9007199254740992) \<noteq> Finite (6004799503160661 / 9007199254740992)
   \<and> (6004799503160662 / 9007199254740992 :: rat) \<noteq> (2 + 0) / 3"
proof (intro conjI)
  let ?d = "\<lparr>prob_b = [], isb = [0, 0, 0], nnbjet = []\<rparr>"
  have f: "frac_wrong [0, 0, 1] [0, 0, 0] = 6004799503160661 / 18014398509481984"
    by (simp add: frac_wrong_def wrong_ex3 round64_third)
  have a: "round64 (1 - frac_wrong [0, 0, 1] [0, 0, 0]) = 6004799503160662 / 9007199254740992"
    unfolding f by (rule round64_one_minus_third)
  have "evaluate ?d [0, 0, 1]
        = Inr (confusion [0, 0, 1] (isb ?d), Finite (round64 (1 - frac_wrong [0, 0, 1] (isb ?d))),
               Finite (frac_wrong [0, 0, 1] (isb ?d)))"
    by (rule evaluate_returns) (simp_all add: py_maxsize_def)
  then show "evaluate ?d [0, 0, 1]
     = Inr ([[2, 0], [1, 0]],
            Finite (6004799503160662 / 9007199254740992),
            Finite (6004799503160661 / 18014398509481984))"
    using a f by (simp add: confusion_ex3)
  show "float_of_int (2 + 0) = Inr (Finite 2)"
    by (simp add: float_of_int_def float_round_def)
  show "float_of_int (int (length [0, 0, 0 :: int])) = Inr (Finite 3)"
    by (simp add: float_of_int_def float_round_def)
  show "float_truediv (Finite 2) (Finite 3) = Inr (Finite (6004799503160661 / 9007199254740992))"
    by (simp add: float_round_def round64_two_thirds)
  show "Finite (6004799503160662 / 9007199254740992) \<noteq> Finite (6004799503160661 / 9007199254740992)"
    by simp
  show "(6004799503160662 / 9007199254740992 :: rat) \<noteq> (2 + 0) / 3"
    by simp
qed

text \<open>
  Claim C4. When the truth column is empty (\<open>N = 0\<close>), \<open>evaluate\<close> does not return a
  report with a NaN accuracy: the float division raises ZeroDivisionError, whatever
  \<open>bquark\<close> is.
\<close>

theorem evaluate_empty_raises:
  "isb data = [] \<Longrightarrow> evaluate data bquark = Inl ZeroDivisionError"
  by (simp add: evaluate_def float_of_int_def float_round_def)

theorem evaluate_empty_raises_witness:
  "isb \<lparr>prob_b = [], isb = [], nnbjet = []\<rparr> = []
   \<and> evaluate \<lparr>prob_b = [], isb = [], nnbjet = []\<rparr> [] = Inl ZeroDivisionError"
  using evaluate_empty_raises [of "\<lparr>prob_b = [], isb = [], nnbjet = []\<rparr>" "[]"] by simp

text \<open>
  Claim C5. The selection loop labels every score of the column: the label is \<open>1\<close> when
  the score is greater than the threshold (strictly, as floats compare) and \<open>0\<close>
  otherwise. For the scores \<open>0.1, 0.5, 0.9\<close> and the threshold \<open>0.5\<close> the labels are
  \<open>0, 0, 1\<close>.
\<close>

theorem select_bquark_threshold:
  "select_bquark column thr = map (\<lambda>s. if float_gt s thr then 1 else 0) column
   \<and> select_bquark [float_lit (1 / 10), float_lit (1 / 2), float_lit (9 / 10)] (float_lit (1 / 2))
       = [0, 0, 1]"
proof
  show "select_bquark column thr = map (\<lambda>s. if float_gt s thr then 1 else 0) column"
    by (rule select_bquark_map)
  have l: "float_lit (1 / 10) = Finite (3602879701896397 / 36028797018963968)"
    "float_lit (1 / 2) = Finite (1 / 2)"
    "float_lit (9 / 10) = Finite (8106479329266893 / 9007199254740992)"
    by (simp_all add: float_lit_def float_round_def round64_tenth round64_nine_tenths)
  show "select_bquark [float_lit (1 / 10), float_lit (1 / 2), float_lit (9 / 10)] (float_lit (1 / 2))
       = [0, 0, 1]"
    by (simp add: select_bquark_map l)
qed

theorem select_bquark_threshold_witness:
  "select_bquark [Finite 1, NaN, Finite 0, PosInf] (Finite 0) = [1, 0, 0, 1]"
  using select_bquark_threshold [of "[Finite 1, NaN, Finite 0, PosInf]" "Finite 0"] by simp

text \<open>
  Claim C6. When the predicted sequence equals the actual one, of length \<open>N > 0\<close> (and
  no longer than a Python sequence can be), \<open>evaluate\<close> returns the fraction wrong \<open>0.0\<close>
  and the accuracy \<open>1.0\<close>. (This holds for all label values, binary or not.)
\<close>

theorem perfect_agreement:
  assumes "bquark = isb data" "0 < length (isb data)" "length (isb data) \<le> py_maxsize"
  shows "\<exists>N. evaluate data bquark = Inr (N, Finite 1, Finite 0)"
proof -
  have w: "wrong bquark (isb data) = 0" using assms(1) by (simp add: wrong_agree)
  have f: "frac_wrong bquark (isb data) = 0" by (simp add: frac_wrong_def w)
  have "length (isb data) \<le> length bquark" using assms(1) by simp
  from evaluate_returns [OF this assms(2,3)] show ?thesis by (simp add: f)
qed

theorem perfect_agreement_witness:
  "[1, 0, 0] = isb \<lparr>prob_b = [], isb = [1, 0, 0], nnbjet = []\<rparr>
   \<and> 0 < length (isb \<lparr>prob_b = [], isb = [1, 0, 0], nnbjet = []\<rparr>)
   \<and> length (isb \<lparr>prob_b = [], isb = [1, 0, 0], nnbjet = []\<rparr>) \<le> py_maxsize
   \<and> (\<exists>N. evaluate \<lparr>prob_b = [], isb = [1, 0, 0], nnbjet = []\<rparr> [1, 0, 0]
            = Inr (N, Finite 1, Finite 0))"
proof -
  let ?d = "\<lparr>prob_b = [], isb = [1, 0, 0], nnbjet = []\<rparr>"
  have h: "[1, 0, 0] = isb ?d" "0 < length (isb ?d)" "length (isb ?d) \<le> py_maxsize"
    by (simp_all add: py_maxsize_def)
  from perfect_agreement [OF h] h show ?thesis by blast
qed

text \<open>
  Claim C7. For predicted and actual label sequences of equal length \<open>N > 0\<close> that hold
  only \<open>0\<close> and \<open>1\<close> (and are no longer than a Python sequence can be), if the two
  differ at every index then \<open>evaluate\<close> returns the accuracy \<open>0.0\<close> (and the fraction
  wrong \<open>1.0\<close>).
\<close>

theorem total_disagreement:
  assumes "length bquark = length (isb data)" "binary bquark" "binary (isb data)"
    and "\<forall>i < length (isb data). bquark ! i \<noteq> isb data ! i"
    and "0 < length (isb data)" "length (isb data) \<le> py_maxsize"
  shows "\<exists>N. evaluate data bquark = Inr (N, Finite 0, Finite 1)"
proof -
  have w: "wrong bquark (isb data) = int (length (isb data))"
    using assms(1-4) by (rule wrong_disagree)
  have "round64 (of_int (int (length (isb data)))) \<noteq> 0"
    using frac_wrong_arg(3) [OF assms(5)] by simp
  then have f: "frac_wrong bquark (isb data) = 1" by (simp add: frac_wrong_def w)
  have "length (isb data) \<le> length bquark" using assms(1) by simp
  from evaluate_returns [OF this assms(5,6)] show ?thesis by (simp add: f)
qed

theorem total_disagreement_witness:
  "length [0, 1 :: int] = length (isb \<lparr>prob_b = [], isb = [1, 0], nnbjet = []\<rparr>)
   \<and> binary [0, 1] \<and> binary (isb \<lparr>prob_b = [], isb = [1, 0], nnbjet = []\<rparr>)
   \<and> [0, 1 :: int] ! 0 \<noteq> isb \<lparr>prob_b = [], isb = [1, 0], nnbjet = []\<rparr> ! 0
   \<and> [0, 1 :: int] ! 1 \<noteq> isb \<lparr>prob_b = [], isb = [1, 0], nnbjet = []\<rparr> ! 1
   \<and> 0 < length (isb \<lparr>prob_b = [], isb = [1, 0], nnbjet = []\<rparr>)
   \<and> length (isb \<lparr>prob_b = [], isb = [1, 0], nnbjet = []\<rparr>) \<le> py_maxsize
   \<and> (\<exists>N. evaluate \<lparr>prob_b = [], isb = [1, 0], nnbjet = []\<rparr> [0, 1] = Inr (N, Finite 0, Finite 1))"
proof -
  let ?d = "\<lparr>prob_b = [], isb = [1, 0], nnbjet = []\<rparr>"
  have h: "length [0, 1 :: int] = length (isb ?d)" "binary [0, 1]" "binary (isb ?d)"
    "\<forall>i < length (isb ?d). [0, 1 :: int] ! i \<noteq> isb ?d ! i"
    "0 < length (isb ?d)" "length (isb ?d) \<le> py_maxsize"
    by (simp_all add: binary_def py_maxsize_def less_Suc_eq)
  from total_disagreement [OF h] h(1-3,5,6) show ?thesis by simp
qed

text \<open>
  Claim C8. A call of \<open>evaluate\<close>, in any state and for any argument, leaves every
  object allocated before the call as it was, and leaves the global table and the
  printed output as they were: whether it returns or raises, it only allocates its own
  table \<open>N\<close> and changes the rows of that table. Its result is a function of the predicted
  and the actual sequence alone: two calls in two states (other objects, other
  addresses, other columns, other output) in which \<open>bquark\<close> and \<^verbatim>\<open>data['isb']\<close> hold
  the same two sequences return the same report or raise the same exception, namely what
  \<open>evaluate\<close> gives on the two sequences.
\<close>

theorem evaluate_store_pure:
  "(\<forall>a < fresh s. heap (snd (evaluate_store s b)) a = heap s a)
   \<and> columns (snd (evaluate_store s b)) = columns s
   \<and> printed (snd (evaluate_store s b)) = printed s
   \<and> (sees s b bquark truth \<and> sees s' b' bquark truth \<and> isb d = truth \<longrightarrow>
        report (evaluate_store s b) = report (evaluate_store s' b')
      \<and> report (evaluate_store s b) = evaluate d bquark)"
proof (intro conjI impI)
  assume h: "sees s b bquark truth \<and> sees s' b' bquark truth \<and> isb d = truth"
  then have a: "sees s b bquark truth" and a': "sees s' b' bquark truth" and t: "isb d = truth"
    by simp_all
  have 1: "report (evaluate_store s b) = evaluate d bquark"
    using a t by (rule evaluate_store_report)
  have 2: "report (evaluate_store s' b') = evaluate d bquark"
    using a' t by (rule evaluate_store_report)
  from 1 show "report (evaluate_store s b) = evaluate d bquark" .
  from 1 2 show "report (evaluate_store s b) = report (evaluate_store s' b')" by simp
qed (simp_all add: evaluate_store_frame)

theorem evaluate_store_pure_witness:
  "sees \<lparr>heap = [0 \<mapsto> IntList [1, 1], 1 \<mapsto> IntList [1, 0], 2 \<mapsto> FloatList [NaN, Finite 1]],
         fresh = 3, columns = [(''prob_b'', 2), (''isb'', 1)], printed = [''Variables'']\<rparr>
        0 [1, 1] [1, 0]
   \<and> sees \<lparr>heap = [0 \<mapsto> IntList [1, 0], 5 \<mapsto> IntList [1, 1]],
            fresh = 7, columns = [(''isb'', 0)], printed = []\<rparr>
        5 [1, 1] [1, 0]
   \<and> report (evaluate_store
        \<lparr>heap = [0 \<mapsto> IntList [1, 1], 1 \<mapsto> IntList [1, 0], 2 \<mapsto> FloatList [NaN, Finite 1]],
         fresh = 3, columns = [(''prob_b'', 2), (''isb'', 1)], printed = [''Variables'']\<rparr> 0)
     = report (evaluate_store
        \<lparr>heap = [0 \<mapsto> IntList [1, 0], 5 \<mapsto> IntList [1, 1]],
         fresh = 7, columns = [(''isb'', 0)], printed = []\<rparr> 5)
   \<and> heap (snd (evaluate_store
        \<lparr>heap = [0 \<mapsto> IntList [1, 1], 1 \<mapsto> IntList [1, 0], 2 \<mapsto> FloatList [NaN, Finite 1]],
         fresh = 3, columns = [(''prob_b'', 2), (''isb'', 1)], printed = [''Variables'']\<rparr> 0)) 0
     = Some (IntList [1, 1])
   \<and> heap (snd (evaluate_store
        \<lparr>heap = [0 \<mapsto> IntList [1, 1], 1 \<mapsto> IntList [1, 0], 2 \<mapsto> FloatList [NaN, Finite 1]],
         fresh = 3, columns = [(''prob_b'', 2), (''isb'', 1)], printed = [''Variables'']\<rparr> 0)) 1
     = Some (IntList [1, 0])"
proof -
  let ?s = "\<lparr>heap = [0 \<mapsto> IntList [1, 1], 1 \<mapsto> IntList [1, 0], 2 \<mapsto> FloatList [NaN, Finite 1]],
         fresh = 3, columns = [(''prob_b'', 2), (''isb'', 1)], printed = [''Variables'']\<rparr>"
  let ?t = "\<lparr>heap = [0 \<mapsto> IntList [1, 0], 5 \<mapsto> IntList [1, 1]],
            fresh = 7, columns = [(''isb'', 0)], printed = []\<rparr>"
  let ?d = "\<lparr>prob_b = [], isb = [1, 0], nnbjet = []\<rparr>"
  have h: "sees ?s 0 [1, 1] [1, 0]" "sees ?t 5 [1, 1] [1, 0]" "isb ?d = [1, 0]"
    by (simp_all add: sees_def)
  note p = evaluate_store_pure [of ?s 0 "[1, 1]" "[1, 0]" ?t 5 ?d]
  from p h have r: "report (evaluate_store ?s 0) = report (evaluate_store ?t 5)" by blast
  from p have f: "\<forall>a < fresh ?s. heap (snd (evaluate_store ?s 0)) a = heap ?s a" by blast
  have "heap (snd (evaluate_store ?s 0)) 0 = heap ?s 0" "heap (snd (evaluate_store ?s 0)) 1 = heap ?s 1"
    using f by simp_all
  then have "heap (snd (evaluate_store ?s 0)) 0 = Some (IntList [1, 1])"
    "heap (snd (evaluate_store ?s 0)) 1 = Some (IntList [1, 0])"
    by simp_all
  with h(1,2) r show ?thesis by blast
qed

text \<open>
  Claim C9. One iteration of the loop of \<open>evaluate\<close>, at an index \<open>i\<close> of both sequences:
  when \<open>bquark[i]\<close> and the truth label at \<open>i\<close> are both \<open>0\<close> or \<open>1\<close>, the iteration is
  the single increment \<^verbatim>\<open>N[bquark[i]][isb[i]] += 1\<close>, which adds \<open>1\<close> to exactly one of
  the four cells; when either value is neither \<open>0\<close> nor \<open>1\<close>, the table is left as it
  was. So the counts can sum to less than \<open>N\<close>: for predicted \<open>[2]\<close> and actual \<open>[0]\<close>
  all four counts are \<open>0\<close> while \<open>N = 1\<close>.
\<close>

theorem one_cell_per_iteration:
  assumes "i < length bquark" "i < length truth"
  shows "((bquark ! i = 0 \<or> bquark ! i = 1) \<and> (truth ! i = 0 \<or> truth ! i = 1) \<longrightarrow>
            evaluate_body bquark truth i N = Inr (incr N (nat (bquark ! i)) (nat (truth ! i))))
       \<and> (\<not> ((bquark ! i = 0 \<or> bquark ! i = 1) \<and> (truth ! i = 0 \<or> truth ! i = 1)) \<longrightarrow>
            evaluate_body bquark truth i N = Inr N)
       \<and> incr [[a, b], [c, d]] 0 0 = [[a + 1, b], [c, d]]
       \<and> incr [[a, b], [c, d]] 0 1 = [[a, b + 1], [c, d]]
       \<and> incr [[a, b], [c, d]] 1 0 = [[a, b], [c + 1, d]]
       \<and> incr [[a, b], [c, d]] 1 1 = [[a, b], [c, d + 1]]
       \<and> evaluate (data\<lparr>isb := [0]\<rparr>) [2] = Inr ([[0, 0], [0, 0]], Finite 1, Finite 0)"
proof (intro conjI impI)
  assume "(bquark ! i = 0 \<or> bquark ! i = 1) \<and> (truth ! i = 0 \<or> truth ! i = 1)"
  then show "evaluate_body bquark truth i N = Inr (incr N (nat (bquark ! i)) (nat (truth ! i)))"
    using assms by (auto simp add: evaluate_body_def count_if_in_range)
next
  assume "\<not> ((bquark ! i = 0 \<or> bquark ! i = 1) \<and> (truth ! i = 0 \<or> truth ! i = 1))"
  then show "evaluate_body bquark truth i N = Inr N"
    using assms by (auto simp add: evaluate_body_def count_if_in_range)
next
  have "wrong [2] [0] = 0" by (simp add: wrong_def cell_count_def)
  then have f: "frac_wrong [2] [0] = 0" by (simp add: frac_wrong_def)
  have c: "confusion [2] [0] = [[0, 0], [0, 0]]" by (simp add: confusion_def cell_count_def)
  show "evaluate (data\<lparr>isb := [0]\<rparr>) [2] = Inr ([[0, 0], [0, 0]], Finite 1, Finite 0)"
    using evaluate_returns [of "data\<lparr>isb := [0]\<rparr>" "[2]"] by (simp add: py_maxsize_def f c)
qed (simp_all add: incr_def)

theorem one_cell_per_iteration_witness:
  "0 < length [1 :: int] \<and> 0 < length [0 :: int]
   \<and> evaluate_body [1] [0] 0 [[5, 6], [7, 8]] = Inr [[5, 6], [8, 8]]
   \<and> 0 < length [2 :: int]
   \<and> evaluate_body [2] [0] 0 [[5, 6], [7, 8]] = Inr [[5, 6], [7, 8]]"
proof -
  have h1: "0 < length [1 :: int]" and h2: "0 < length [2 :: int]" and h0: "0 < length [0 :: int]"
    by simp_all
  from one_cell_per_iteration [OF h1 h0, of "[[5, 6], [7, 8]]"]
  have a: "evaluate_body [1] [0] 0 [[5, 6], [7, 8]] = Inr (incr [[5, 6], [7, 8]] 1 0)" by simp
  from one_cell_per_iteration [OF h1 h0, of "[[5, 6], [7, 8]]" 5 6 7 8]
  have i: "incr [[5, 6], [7, 8]] 1 0 = [[5, 6], [7 + 1, 8]]" by blast
  from one_cell_per_iteration [OF h2 h0, of "[[5, 6], [7, 8]]"]
  have b: "evaluate_body [2] [0] 0 [[5, 6], [7, 8]] = Inr [[5, 6], [7, 8]]" by simp
  from a i b show ?thesis by simp
qed

text \<open>
  Claim C10. When \<open>bquark\<close> is at least as long as the truth column, of length \<open>N\<close>,
  \<open>evaluate\<close> gives what it gives on the first \<open>N\<close> entries of \<open>bquark\<close>: the entries
  from index \<open>N\<close> on are never read.
\<close>

theorem extra_predictions_ignored:
  assumes "length (isb data) \<le> length bquark"
  shows "evaluate data bquark = evaluate data (take (length (isb data)) bquark)"
proof -
  have "\<forall>i \<in> set [0..<length (isb data)]. i < length (isb data)" by simp
  then have "evaluate_loop (take (length (isb data)) bquark) (isb data) [0..<length (isb data)] [[0, 0], [0, 0]]
        = evaluate_loop bquark (isb data) [0..<length (isb data)] [[0, 0], [0, 0]]"
    by (rule evaluate_loop_take)
  then show ?thesis by (simp add: evaluate_def)
qed

theorem extra_predictions_ignored_witness:
  "length (isb \<lparr>prob_b = [], isb = [1, 0], nnbjet = []\<rparr>) \<le> length [1, 1, 0, 7 :: int]
   \<and> evaluate \<lparr>prob_b = [], isb = [1, 0], nnbjet = []\<rparr> [1, 1, 0, 7]
       = evaluate \<lparr>prob_b = [], isb = [1, 0], nnbjet = []\<rparr> [1, 1]"
  using extra_predictions_ignored [of "\<lparr>prob_b = [], isb = [1, 0], nnbjet = []\<rparr>" "[1, 1, 0, 7]"]
  by simp

end
